theory Spec2Isabelle
  imports Main "HOL-Library.Sublist"
begin

section \<open>Python strings\<close>

text \<open>
  A Python \<open>str\<close> is modelled as a \<open>string\<close> whose characters are the code points
  below 256. On that range \<open>str.isspace\<close> (also the class \<open>\s\<close> of \<open>re\<close>) holds for
  the twelve characters listed, \<open>\d\<close> is the ASCII digits, and \<open>str.lower\<close> moves
  \<open>A\<close>-\<open>Z\<close> and the upper-case letters of Latin-1 (all of \<open>0xC0\<close>-\<open>0xDE\<close> but the
  multiplication sign) up by 32, one character for one character.
\<close>

definition py_isspace :: "char \<Rightarrow> bool" where
  "py_isspace c = (of_char c \<in> set [9, 10, 11, 12, 13, 28, 29, 30, 31, 32, 133, 160 :: nat])"

definition py_isdigit :: "char \<Rightarrow> bool" where
  "py_isdigit c = (48 \<le> (of_char c :: nat) \<and> (of_char c :: nat) \<le> 57)"

definition lower_char :: "char \<Rightarrow> char" where
  "lower_char c =
     (let n = (of_char c :: nat)
      in if (65 \<le> n \<and> n \<le> 90) \<or> (192 \<le> n \<and> n \<le> 222 \<and> n \<noteq> 215)
         then char_of (n + 32) else c)"

definition py_lower :: "string \<Rightarrow> string" where
  "py_lower s = map lower_char s"

definition strip :: "string \<Rightarrow> string" where
  "strip s = rev (dropWhile py_isspace (rev (dropWhile py_isspace s)))"

definition startswith :: "string \<Rightarrow> string \<Rightarrow> bool" where
  "startswith s p = prefix p s"

text \<open>\<open>needle in s\<close> on strings: \<open>needle\<close> occurs in \<open>s\<close> as a contiguous run.\<close>

definition py_in :: "string \<Rightarrow> string \<Rightarrow> bool" where
  "py_in needle s = sublist needle s"

text \<open>\<open>str(n)\<close> for an \<open>int\<close>, as an f-string renders it: decimal, with a sign when negative.\<close>

fun str_nat :: "nat \<Rightarrow> string" where
  "str_nat n =
     (if n < 10 then [char_of (48 + n)]
      else str_nat (n div 10) @ [char_of (48 + n mod 10)])"

declare str_nat.simps [simp del]

definition str_int :: "int \<Rightarrow> string" where
  "str_int i = (if i < 0 then CHR ''-'' # str_nat (nat (- i)) else str_nat (nat i))"

section \<open>The regular expressions of the scraper\<close>

text \<open>
  The patterns handed to \<open>re.compile\<close> and \<open>re.search\<close> are built from literal
  characters, \<open>\d\<close>, \<open>\s\<close>, greedy \<open>+\<close> on a single character class, \<open>?\<close>, \<open>|\<close> and
  capture groups. \<open>matches\<close> is the backtracking matcher of \<open>re\<close> at one position: the
  list of all ways the pattern matches a prefix of the subject, in the order in which
  backtracking tries them (greedy repetition longest first, the left alternative first,
  an optional part present before absent). Each result holds the matched text, the
  groups captured on the way and the rest of the subject. The flag is \<open>re.IGNORECASE\<close>.
\<close>

datatype atom = Chr char | Digit | Whitespace

datatype regex =
    Eps
  | Atom atom
  | Plus atom
  | Seq regex regex
  | Alt regex regex
  | Opt regex
  | Group nat regex

fun atom_ok :: "bool \<Rightarrow> atom \<Rightarrow> char \<Rightarrow> bool" where
  "atom_ok ic (Chr p) c = (if ic then lower_char c = lower_char p else c = p)"
| "atom_ok ic Digit c = py_isdigit c"
| "atom_ok ic Whitespace c = py_isspace c"

type_synonym captures = "(nat \<times> string) list"

fun matches :: "bool \<Rightarrow> regex \<Rightarrow> string \<Rightarrow> (string \<times> captures \<times> string) list" where
  "matches ic Eps s = [([], [], s)]"
| "matches ic (Atom a) s =
     (case s of [] \<Rightarrow> [] | c # cs \<Rightarrow> if atom_ok ic a c then [([c], [], cs)] else [])"
| "matches ic (Plus a) s =
     map (\<lambda>n. (take n s, [], drop n s))
         (rev [1 ..< Suc (length (takeWhile (atom_ok ic a) s))])"
| "matches ic (Seq r1 r2) s =
     concat (map (\<lambda>m1. map (\<lambda>m2. (fst m1 @ fst m2, fst (snd m1) @ fst (snd m2), snd (snd m2)))
                            (matches ic r2 (snd (snd m1))))
                 (matches ic r1 s))"
| "matches ic (Alt r1 r2) s = matches ic r1 s @ matches ic r2 s"
| "matches ic (Opt r) s = matches ic r s @ [([], [], s)]"
| "matches ic (Group n r) s =
     map (\<lambda>m. (fst m, fst (snd m) @ [(n, fst m)], snd (snd m))) (matches ic r s)"

text \<open>A match object: where the match starts, \<open>group(0)\<close>, and the numbered groups.\<close>

record re_match =
  m_start :: nat
  group0 :: string
  m_groups :: captures

definition group :: "re_match \<Rightarrow> nat \<Rightarrow> string option" where
  "group m n = (if n = 0 then Some (group0 m) else map_of (m_groups m) n)"

text \<open>
  \<open>re.search\<close> scans the start positions from left to right, the end of the subject
  included, and returns the first match of the first position that has one.
\<close>

fun search_from :: "bool \<Rightarrow> regex \<Rightarrow> nat \<Rightarrow> string \<Rightarrow> re_match option" where
  "search_from ic r i s =
     (case matches ic r s of
        m # _ \<Rightarrow> Some \<lparr>m_start = i, group0 = fst m, m_groups = fst (snd m)\<rparr>
      | [] \<Rightarrow> (case s of [] \<Rightarrow> None | c # cs \<Rightarrow> search_from ic r (Suc i) cs))"

declare search_from.simps [simp del]

definition re_search :: "bool \<Rightarrow> regex \<Rightarrow> string \<Rightarrow> re_match option" where
  "re_search ic r s = search_from ic r 0 s"

definition lit :: "string \<Rightarrow> regex" where
  "lit s = foldr (\<lambda>c r. Seq (Atom (Chr c)) r) s Eps"

definition seqs :: "regex list \<Rightarrow> regex" where
  "seqs rs = foldr Seq rs Eps"

text \<open>\<open>\.\d+\<close>, the tail of every version pattern.\<close>

definition dot_digits :: regex where
  "dot_digits = seqs [Atom (Chr CHR ''.''), Plus Digit]"

text \<open>\<open>Index of /\<close> and \<open>Name\s+Last modified\s+Size\s+Description\<close> (lines 50 and 51).\<close>

definition index_of_pattern :: regex where
  "index_of_pattern = lit ''Index of /''"

definition listing_header_pattern :: regex where
  "listing_header_pattern =
     seqs [lit ''Name'', Plus Whitespace, lit ''Last modified'', Plus Whitespace,
           lit ''Size'', Plus Whitespace, lit ''Description'']"

text \<open>
  \<open>footer_text_patterns\<close> (lines 71 to 75):
  \<^verbatim>\<open>powered by (wordpress|joomla|drupal|magento) v?(\d+\.\d+(\.\d+)?(\.\d+)?)\<close>,
  \<^verbatim>\<open>version (\d+\.\d+(\.\d+)?(\.\d+)?)\<close> and \<^verbatim>\<open>apache/(\d+\.\d+(\.\d+)?)\<close>.
\<close>

definition powered_by_pattern :: regex where
  "powered_by_pattern =
     seqs [lit ''powered by '',
           Group 1 (Alt (lit ''wordpress'') (Alt (lit ''joomla'') (Alt (lit ''drupal'') (lit ''magento'')))),
           lit '' '', Opt (Atom (Chr CHR ''v'')),
           Group 2 (seqs [Plus Digit, dot_digits, Opt (Group 3 dot_digits), Opt (Group 4 dot_digits)])]"

definition version_pattern :: regex where
  "version_pattern =
     seqs [lit ''version '',
           Group 1 (seqs [Plus Digit, dot_digits, Opt (Group 2 dot_digits), Opt (Group 3 dot_digits)])]"

definition apache_pattern :: regex where
  "apache_pattern =
     seqs [lit ''apache/'',
           Group 1 (seqs [Plus Digit, dot_digits, Opt (Group 2 dot_digits)])]"

definition footer_text_patterns :: "regex list" where
  "footer_text_patterns = [powered_by_pattern, version_pattern, apache_pattern]"

text \<open>\<^verbatim>\<open>ver=(\d+\.\d+(\.\d+)?)\<close> (line 86), searched without \<open>re.IGNORECASE\<close>.\<close>

definition ver_pattern :: regex where
  "ver_pattern =
     seqs [lit ''ver='',
           Group 1 (seqs [Plus Digit, dot_digits, Opt (Group 2 dot_digits)])]"

section \<open>Parsed documents\<close>

text \<open>
  The tree \<open>BeautifulSoup(text, 'html.parser')\<close> builds: a \<open>Tag\<close> has a name, its
  attributes (a dictionary, here the list of its items, read with \<open>map_of\<close>) and its
  contents; a string of the page is a \<open>NavigableString\<close>, a \<open>CData\<close> section, or one
  of the classes \<open>get_text\<close> leaves out (comments, declarations, doctypes, processing
  instructions and, where the library keeps them apart, the text of scripts and style
  sheets), which \<open>Comment\<close> stands for. The soup itself is the list of the top-level
  nodes.
\<close>

datatype node =
    Tag string "(string \<times> string) list" "node list"
  | NavigableString string
  | CData string
  | Comment string

type_synonym soup = "node list"

text \<open>A node followed by everything below it, in document order.\<close>

fun flatten :: "node \<Rightarrow> node list" where
  "flatten (Tag name attrs contents) = Tag name attrs contents # concat (map flatten contents)"
| "flatten (NavigableString s) = [NavigableString s]"
| "flatten (CData s) = [CData s]"
| "flatten (Comment s) = [Comment s]"

definition descendants :: "soup \<Rightarrow> node list" where
  "descendants soup = concat (map flatten soup)"

fun is_tag :: "string list \<Rightarrow> node \<Rightarrow> bool" where
  "is_tag names (Tag name attrs contents) = (name \<in> set names)"
| "is_tag names _ = False"

fun node_attrs :: "node \<Rightarrow> (string \<times> string) list" where
  "node_attrs (Tag name attrs contents) = attrs"
| "node_attrs _ = []"

fun node_contents :: "node \<Rightarrow> node list" where
  "node_contents (Tag name attrs contents) = contents"
| "node_contents _ = []"

text \<open>\<open>tag.get(key)\<close>: the attribute, or \<open>None\<close>.\<close>

definition tag_get :: "node \<Rightarrow> string \<Rightarrow> string option" where
  "tag_get t key = map_of (node_attrs t) key"

text \<open>The text of a string node of any class; \<open>None\<close> for a tag.\<close>

fun string_of :: "node \<Rightarrow> string option" where
  "string_of (Tag name attrs contents) = None"
| "string_of (NavigableString s) = Some s"
| "string_of (CData s) = Some s"
| "string_of (Comment s) = Some s"

text \<open>What a node adds to \<open>get_text()\<close>: page text and CDATA, nothing else.\<close>

fun text_piece :: "node \<Rightarrow> string" where
  "text_piece (NavigableString s) = s"
| "text_piece (CData s) = s"
| "text_piece _ = []"

definition get_text :: "node list \<Rightarrow> string" where
  "get_text nodes = concat (map text_piece (descendants nodes))"

text \<open>
  The \<open>.string\<close> property: a string node is its own string; a tag with exactly one
  child has the \<open>.string\<close> of that child; any other tag has none.
\<close>

fun dot_string :: "node \<Rightarrow> string option" where
  "dot_string (Tag name attrs contents) =
     (case contents of [child] \<Rightarrow> dot_string child | _ \<Rightarrow> None)"
| "dot_string (NavigableString s) = Some s"
| "dot_string (CData s) = Some s"
| "dot_string (Comment s) = Some s"

text \<open>\<open>soup.find(name)\<close>, \<open>soup.title\<close> and \<open>soup.find_all(names)\<close>.\<close>

definition find_tag :: "string \<Rightarrow> soup \<Rightarrow> node option" where
  "find_tag name soup = List.find (is_tag [name]) (descendants soup)"

definition soup_title :: "soup \<Rightarrow> node option" where
  "soup_title soup = find_tag ''title'' soup"

definition find_all :: "string list \<Rightarrow> soup \<Rightarrow> node list" where
  "find_all names soup = filter (is_tag names) (descendants soup)"

text \<open>\<open>soup.find(name, attrs={key: value})\<close>: the first such tag whose attribute is exactly the value.\<close>

definition find_tag_attrs :: "string \<Rightarrow> string \<Rightarrow> string \<Rightarrow> soup \<Rightarrow> node option" where
  "find_tag_attrs name key val soup =
     List.find (\<lambda>t. is_tag [name] t \<and> tag_get t key = Some val) (descendants soup)"

text \<open>\<open>soup.find(string=pattern)\<close>: the first string node, of any class, the pattern is found in.\<close>

definition find_string :: "bool \<Rightarrow> regex \<Rightarrow> soup \<Rightarrow> string option" where
  "find_string ic pattern soup =
     List.find (\<lambda>s. re_search ic pattern s \<noteq> None) (List.map_filter string_of (descendants soup))"

text \<open>\<open>soup.find(name, string=pattern)\<close>: the first such tag whose \<open>.string\<close> exists and the pattern is found in.\<close>

definition find_tag_string :: "string \<Rightarrow> bool \<Rightarrow> regex \<Rightarrow> soup \<Rightarrow> node option" where
  "find_tag_string name ic pattern soup =
     List.find (\<lambda>t. is_tag [name] t \<and>
                  (case dot_string t of None \<Rightarrow> False | Some s \<Rightarrow> re_search ic pattern s \<noteq> None))
               (descendants soup)"

section \<open>The transport\<close>

text \<open>
  A response of \<open>requests\<close>: its status code and its text. \<open>raise_for_status\<close> raises
  \<open>HTTPError\<close> for the codes 400 to 599; a response is truthy when it does not.
\<close>

record response =
  status_code :: int
  resp_text :: string

definition raise_for_status :: "response \<Rightarrow> bool" where
  "raise_for_status r = (400 \<le> status_code r \<and> status_code r < 600)"

definition truthy :: "response option \<Rightarrow> bool" where
  "truthy r = (case r of None \<Rightarrow> False | Some resp \<Rightarrow> \<not> raise_for_status resp)"

text \<open>
  What the program does to its surroundings is kept in the state: the state \<open>world\<close> of
  the network and of the servers behind it, which a request may change, and the list
  \<open>events\<close>, oldest first, of the requests issued and of the steps of the scan entered.
  Lines printed to the terminal are not part of any report and are left out.
\<close>

datatype step =
    Record_general_info
  | Check_open_directory
  | Check_outdated_software
  | Check_exposed_admin_panels

datatype event = Request string | Step step

record 'w state =
  world :: 'w
  events :: "event list"

text \<open>
  The libraries the program calls and that are not part of it: \<open>requests.get\<close> with the
  fixed headers and timeout, which returns a response or raises a \<open>RequestException\<close>
  (\<open>Inl\<close>, with its message) and may change the world; \<open>BeautifulSoup\<close> with
  \<open>html.parser\<close>; \<open>urllib.parse.urljoin\<close>. Each call is taken to return: an
  exception of another kind, which the program would not catch, is outside the model.
\<close>

record 'w env =
  requests_get :: "string \<Rightarrow> 'w \<Rightarrow> (string + response) \<times> 'w"
  html_parser :: "string \<Rightarrow> soup"
  urljoin :: "string \<Rightarrow> string \<Rightarrow> string"

definition ADMIN_PATHS :: "string list" where
  "ADMIN_PATHS =
     [''/admin'', ''/administrator'', ''/login'', ''/wp-admin'', ''/dashboard'',
      ''/cpanel'', ''/phpmyadmin'', ''/webmail'', ''/user/login'', ''/panel'']"

section \<open>Helper functions\<close>

definition fetch_url_content :: "'w env \<Rightarrow> string \<Rightarrow> 'w state \<Rightarrow> response option \<times> 'w state" where
  "fetch_url_content env url st =
     (let answer = requests_get env url (world st);
          st' = \<lparr>world = snd answer, events = events st @ [Request url]\<rparr>
      in case fst answer of
           Inl e \<Rightarrow> (None, st')
         | Inr response \<Rightarrow>
             if raise_for_status response then (None, st') else (Some response, st'))"

definition check_open_directory :: "'w env \<Rightarrow> response option \<Rightarrow> bool" where
  "check_open_directory env response =
     (case response of
        None \<Rightarrow> False
      | Some resp \<Rightarrow>
          if raise_for_status resp then False
          else
            let soup = html_parser env (resp_text resp)
            in if (case soup_title soup of
                     None \<Rightarrow> False
                   | Some title \<Rightarrow> py_in ''index of /'' (py_lower (get_text [title])))
               then True
               else if (case find_string True index_of_pattern soup of
                          None \<Rightarrow> False | Some s \<Rightarrow> s \<noteq> [])
                       \<or> find_tag_string ''pre'' True listing_header_pattern soup \<noteq> None
               then True
               else False)"

text \<open>The three parts of \<open>check_outdated_software\<close>, each appending to \<open>findings\<close>.\<close>

definition meta_findings :: "soup \<Rightarrow> string list \<Rightarrow> string list" where
  "meta_findings soup findings =
     (case find_tag_attrs ''meta'' ''name'' ''generator'' soup of
        None \<Rightarrow> findings
      | Some meta_generator \<Rightarrow>
          (case tag_get meta_generator ''content'' of
             None \<Rightarrow> findings
           | Some generator_info \<Rightarrow>
               findings @ [''Potential software identified via meta tag: '' @ generator_info]))"

fun footer_findings :: "regex list \<Rightarrow> string \<Rightarrow> string list \<Rightarrow> string list" where
  "footer_findings [] page_text findings = findings"
| "footer_findings (pattern # patterns) page_text findings =
     footer_findings patterns page_text
       (case re_search True pattern page_text of
          None \<Rightarrow> findings
        | Some match \<Rightarrow>
            findings @ [''Potential software version found in text: '' @ group0 match])"

text \<open>\<open>link.get('src') or link.get('href')\<close>: \<open>src\<close> unless it is missing or empty.\<close>

definition src_or_href :: "node \<Rightarrow> string option" where
  "src_or_href link =
     (case tag_get link ''src'' of
        None \<Rightarrow> tag_get link ''href''
      | Some s \<Rightarrow> if s \<noteq> [] then Some s else tag_get link ''href'')"

text \<open>How an f-string renders \<open>match.group(n)\<close>: a group that took no part is \<open>None\<close>.\<close>

definition str_group :: "string option \<Rightarrow> string" where
  "str_group g = (case g of None \<Rightarrow> ''None'' | Some s \<Rightarrow> s)"

fun resource_findings :: "node list \<Rightarrow> string list \<Rightarrow> string list" where
  "resource_findings [] findings = findings"
| "resource_findings (link # links) findings =
     resource_findings links
       (case src_or_href link of
          None \<Rightarrow> findings
        | Some src \<Rightarrow>
            if src = [] then findings
            else (case re_search False ver_pattern src of
                    None \<Rightarrow> findings
                  | Some match \<Rightarrow>
                      findings @ [''Potential version parameter in resource URL: '' @ src
                                  @ '' (version: '' @ str_group (group match 1) @ '')'']))"

definition check_outdated_software :: "soup \<Rightarrow> string list" where
  "check_outdated_software soup =
     resource_findings (find_all [''script'', ''link''] soup)
       (footer_findings footer_text_patterns (get_text soup)
          (meta_findings soup []))"

fun probe_paths ::
  "'w env \<Rightarrow> string \<Rightarrow> string list \<Rightarrow> string list \<Rightarrow> 'w state \<Rightarrow> string list \<times> 'w state" where
  "probe_paths env base_url [] accessible_panels st = (accessible_panels, st)"
| "probe_paths env base_url (path # paths) accessible_panels st =
     (let full_url = urljoin env base_url path;
          fetched = fetch_url_content env full_url st
      in probe_paths env base_url paths
           (if truthy (fst fetched) \<and> map_option status_code (fst fetched) = Some 200
            then accessible_panels @ [full_url] else accessible_panels)
           (snd fetched))"

definition check_exposed_admin_panels :: "'w env \<Rightarrow> string \<Rightarrow> 'w state \<Rightarrow> string list \<times> 'w state" where
  "check_exposed_admin_panels env base_url st = probe_paths env base_url ADMIN_PATHS [] st"

section \<open>The scan\<close>

record scan_findings =
  open_directory :: bool
  outdated_software_indicators :: "string list"
  exposed_admin_panels :: "string list"
  general_info :: "string list"

record scan_report =
  target_url :: string
  status :: string
  findings :: scan_findings
  errors :: "string list"

text \<open>The dictionary \<open>results\<close> as lines 115 to 125 build it.\<close>

definition initial_results :: "string \<Rightarrow> scan_report" where
  "initial_results url =
     \<lparr>target_url = url,
      status = ''Incomplete'',
      findings = \<lparr>open_directory = False,
                  outdated_software_indicators = [],
                  exposed_admin_panels = [],
                  general_info = []\<rparr>,
      errors = []\<rparr>"

definition log_step :: "step \<Rightarrow> 'w state \<Rightarrow> 'w state" where
  "log_step s st = st\<lparr>events := events st @ [Step s]\<rparr>"

definition security_scan_website :: "'w env \<Rightarrow> string \<Rightarrow> 'w state \<Rightarrow> scan_report \<times> 'w state" where
  "security_scan_website env url st0 =
     (let results = initial_results url;
          fetched = fetch_url_content env url st0;
          main_response = fst fetched;
          st1 = snd fetched
      in if \<not> truthy main_response
         then (results\<lparr>errors := errors results @ [''Could not fetch main URL: '' @ url],
                       status := ''Failed''\<rparr>, st1)
         else
           let soup = html_parser env (case main_response of Some r \<Rightarrow> resp_text r | None \<Rightarrow> []);
               st2 = log_step Record_general_info st1;
               info = general_info (findings results)
                      @ [''Title: '' @ (case soup_title soup of
                                          Some title \<Rightarrow> get_text [title] | None \<Rightarrow> ''N/A'')];
               info = info @ [''HTTP Status Code: ''
                              @ (case main_response of Some r \<Rightarrow> str_int (status_code r) | None \<Rightarrow> [])];
               results = results\<lparr>findings := (findings results)\<lparr>general_info := info\<rparr>\<rparr>;
               st3 = log_step Check_open_directory st2;
               results =
                 (if check_open_directory env main_response
                  then results\<lparr>findings := (findings results)
                         \<lparr>open_directory := True,
                          general_info := general_info (findings results)
                            @ [''Detected potential open directory listing on main URL.'']\<rparr>\<rparr>
                  else results);
               st4 = log_step Check_outdated_software st3;
               indicators = check_outdated_software soup;
               results =
                 (if indicators \<noteq> []
                  then results\<lparr>findings := (findings results)
                         \<lparr>outdated_software_indicators :=
                            outdated_software_indicators (findings results) @ indicators\<rparr>\<rparr>
                  else results);
               st5 = log_step Check_exposed_admin_panels st4;
               probed = check_exposed_admin_panels env url st5;
               results =
                 (if fst probed \<noteq> []
                  then results\<lparr>findings := (findings results)
                         \<lparr>exposed_admin_panels :=
                            exposed_admin_panels (findings results) @ fst probed\<rparr>\<rparr>
                  else results)
           in (results\<lparr>status := ''Completed''\<rparr>, snd probed))"

section \<open>The operator's loop\<close>

text \<open>
  One turn of the loop of lines 162 to 175 on the line \<open>input\<close> returned: leave the
  loop, ask again, or scan the URL given.
\<close>

datatype turn = Quit | Ask_again | Scan string

definition read_url :: "string \<Rightarrow> turn" where
  "read_url line =
     (let url_input = strip line
      in if py_lower url_input = ''exit'' then Quit
         else if url_input = [] then Ask_again
         else if \<not> (startswith url_input ''http://'' \<or> startswith url_input ''https://'')
         then Scan (''https://'' @ url_input)
         else Scan url_input)"

text \<open>
  The loop on the lines the operator types, as far as they go; it returns the reports
  of the scans made, in order.
\<close>

fun main_loop :: "'w env \<Rightarrow> string list \<Rightarrow> 'w state \<Rightarrow> scan_report list \<times> 'w state" where
  "main_loop env [] st = ([], st)"
| "main_loop env (line # lines) st =
     (case read_url line of
        Quit \<Rightarrow> ([], st)
      | Ask_again \<Rightarrow> main_loop env lines st
      | Scan url \<Rightarrow>
          (let scanned = security_scan_website env url st;
               later = main_loop env lines (snd scanned)
           in (fst scanned # fst later, snd later)))"

section \<open>Notions the statements use\<close>

text \<open>
  The main fetch fails when \<open>requests.get\<close> raises (no connection, a timeout) or
  answers with an error status, for which \<open>raise_for_status\<close> raises.
\<close>

definition fetch_fails :: "'w env \<Rightarrow> string \<Rightarrow> 'w \<Rightarrow> bool" where
  "fetch_fails env url w =
     (case fst (requests_get env url w) of Inl e \<Rightarrow> True | Inr r \<Rightarrow> raise_for_status r)"

text \<open>The answer to a request is a response with status code 200.\<close>

definition answered_200 :: "string + response \<Rightarrow> bool" where
  "answered_200 a = (case a of Inl e \<Rightarrow> False | Inr r \<Rightarrow> status_code r = 200)"

text \<open>
  What the transport answers to requests for the given URLs, issued one after the
  other from the world \<open>w\<close>, and the world they leave.
\<close>

fun replies :: "'w env \<Rightarrow> string list \<Rightarrow> 'w \<Rightarrow> (string + response) list" where
  "replies env [] w = []"
| "replies env (u # us) w =
     fst (requests_get env u w) # replies env us (snd (requests_get env u w))"

fun world_after :: "'w env \<Rightarrow> string list \<Rightarrow> 'w \<Rightarrow> 'w" where
  "world_after env [] w = w"
| "world_after env (u # us) w = world_after env us (snd (requests_get env u w))"

text \<open>The target is deterministic: the answer to a request depends on its URL only.\<close>

definition deterministic :: "'w env \<Rightarrow> bool" where
  "deterministic env = (\<forall>u w w'. fst (requests_get env u w) = fst (requests_get env u w'))"

section \<open>A stub server\<close>

text \<open>
  A transport for the examples. The world counts the requests served. The site
  \<open>https://example.com\<close> serves its main page and \<open>/login\<close> with status 200, refuses
  the connection for \<open>/wp-admin\<close> and answers 404 elsewhere; \<open>https://down.example\<close>
  times out. The parser knows the one page served, and the join puts an absolute path
  behind the origin of the base.
\<close>

definition stub_page :: string where
  "stub_page = ''<title>Index of /test</title>''"

definition stub_get :: "string \<Rightarrow> nat \<Rightarrow> (string + response) \<times> nat" where
  "stub_get url w =
     (if url = ''https://example.com'' then Inr \<lparr>status_code = 200, resp_text = stub_page\<rparr>
      else if url = ''https://example.com/login'' then Inr \<lparr>status_code = 200, resp_text = ''Sign in''\<rparr>
      else if url = ''https://example.com/wp-admin'' then Inl ''Connection refused''
      else if url = ''https://down.example'' then Inl ''Read timed out''
      else Inr \<lparr>status_code = 404, resp_text = ''Not Found''\<rparr>,
      Suc w)"

definition stub_parser :: "string \<Rightarrow> soup" where
  "stub_parser page =
     (if page = stub_page then [Tag ''title'' [] [NavigableString ''Index of /test'']] else [])"

definition stub_urljoin :: "string \<Rightarrow> string \<Rightarrow> string" where
  "stub_urljoin base path =
     (let scheme = takeWhile (\<lambda>c. c \<noteq> CHR ''/'') base;
          host = takeWhile (\<lambda>c. c \<noteq> CHR ''/'') (drop (length scheme + 2) base)
      in scheme @ ''//'' @ host @ path)"

definition stub_env :: "nat env" where
  "stub_env = \<lparr>requests_get = stub_get, html_parser = stub_parser, urljoin = stub_urljoin\<rparr>"

definition stub_start :: "nat state" where
  "stub_start = \<lparr>world = 0, events = []\<rparr>"

section \<open>What the patterns match\<close>

text \<open>
  The texts a pattern matches, as a set: the meaning of the pattern apart from the
  order in which the matcher finds them. Groups do not change it.
\<close>

fun lang :: "bool \<Rightarrow> regex \<Rightarrow> string set" where
  "lang ic Eps = {[]}"
| "lang ic (Atom a) = {[c] | c. atom_ok ic a c}"
| "lang ic (Plus a) = {w. w \<noteq> [] \<and> (\<forall>c \<in> set w. atom_ok ic a c)}"
| "lang ic (Seq r1 r2) = {u @ v | u v. u \<in> lang ic r1 \<and> v \<in> lang ic r2}"
| "lang ic (Alt r1 r2) = lang ic r1 \<union> lang ic r2"
| "lang ic (Opt r) = insert [] (lang ic r)"
| "lang ic (Group n r) = lang ic r"

text \<open>The pattern matches in \<open>s\<close> at position \<open>n\<close>; it occurs in \<open>s\<close>.\<close>

definition matches_at :: "bool \<Rightarrow> regex \<Rightarrow> string \<Rightarrow> nat \<Rightarrow> bool" where
  "matches_at ic r s n = (n \<le> length s \<and> (\<exists>w \<in> lang ic r. prefix w (drop n s)))"

definition occurs :: "bool \<Rightarrow> regex \<Rightarrow> string \<Rightarrow> bool" where
  "occurs ic r s = (\<exists>n. matches_at ic r s n)"

text \<open>
  Version numbers: a numeral is a non-empty run of digits, and \<open>versions lo hi\<close> are
  the texts made of at least \<open>lo\<close> and at most \<open>hi\<close> numerals with a dot between
  neighbours.
\<close>

definition is_numeral :: "string \<Rightarrow> bool" where
  "is_numeral w = (w \<noteq> [] \<and> (\<forall>c \<in> set w. py_isdigit c))"

fun dotted :: "string list \<Rightarrow> string" where
  "dotted [] = []"
| "dotted [c] = c"
| "dotted (c # cs) = c @ ''.'' @ dotted cs"

definition versions :: "nat \<Rightarrow> nat \<Rightarrow> string set" where
  "versions lo hi =
     {dotted cs | cs. lo \<le> length cs \<and> length cs \<le> hi \<and> (\<forall>c \<in> set cs. is_numeral c)}"

text \<open>
  \<open>w\<close> is a match of the pattern at position \<open>n\<close> of \<open>s\<close>, and the pattern matches
  at no position before \<open>n\<close>: the first occurrence.
\<close>

definition first_match :: "bool \<Rightarrow> regex \<Rightarrow> string \<Rightarrow> nat \<Rightarrow> string \<Rightarrow> bool" where
  "first_match ic r s n w =
     (w \<in> lang ic r \<and> n \<le> length s \<and> prefix w (drop n s) \<and> (\<forall>k < n. \<not> matches_at ic r s k))"

text \<open>What one footer pattern, and what one \<open>script\<close> or \<open>link\<close> element, adds to the findings.\<close>

definition text_finding :: "regex \<Rightarrow> string \<Rightarrow> string list" where
  "text_finding pattern page_text = footer_findings [pattern] page_text []"

definition resource_finding :: "node \<Rightarrow> string list" where
  "resource_finding link = resource_findings [link] []"

text \<open>The numbers of the groups of a pattern.\<close>

fun groups_of :: "regex \<Rightarrow> nat set" where
  "groups_of Eps = {}"
| "groups_of (Atom a) = {}"
| "groups_of (Plus a) = {}"
| "groups_of (Seq r1 r2) = groups_of r1 \<union> groups_of r2"
| "groups_of (Alt r1 r2) = groups_of r1 \<union> groups_of r2"
| "groups_of (Opt r) = groups_of r"
| "groups_of (Group n r) = insert n (groups_of r)"

text \<open>White space between the column titles of a listing: a non-empty run of it.\<close>

definition is_space :: "string \<Rightarrow> bool" where
  "is_space w = (w \<noteq> [] \<and> (\<forall>c \<in> set w. py_isspace c))"

section \<open>Example documents\<close>

text \<open>A page whose text has a product line, a server token and a long version number.\<close>

definition footer_soup :: soup where
  "footer_soup =
     [Tag ''html'' []
        [Tag ''body'' []
           [Tag ''p'' [] [NavigableString ''Powered by WordPress 5.8''],
            Tag ''footer'' [] [NavigableString '' on Apache/2.4.41.7 (Ubuntu), version 1.2.3.4.5'']]]]"

text \<open>A page with a versioned script, a style sheet with no version, and a versioned style sheet.\<close>

definition script_soup :: soup where
  "script_soup =
     [Tag ''html'' []
        [Tag ''head'' []
           [Tag ''script'' [(''src'', ''/wp-includes/x.js?ver=5.8.1'')] [],
            Tag ''link'' [(''rel'', ''stylesheet''), (''href'', ''/style.css'')] [],
            Tag ''link'' [(''href'', ''/theme.css?ver=2.0'')] []]]]"

text \<open>A page of a content-management system, and a page on which two programs name themselves.\<close>

definition wordpress_soup :: soup where
  "wordpress_soup =
     [Tag ''html'' []
        [Tag ''head'' []
           [Tag ''meta'' [(''charset'', ''utf-8'')] [],
            Tag ''meta'' [(''name'', ''generator''), (''content'', ''WordPress 5.8'')] [],
            Tag ''script'' [(''src'', ''/wp-includes/x.js?ver=5.8.1'')] []],
         Tag ''body'' [] [NavigableString ''Powered by WordPress 5.8'']]]"

definition generators_soup :: soup where
  "generators_soup =
     [Tag ''head'' []
        [Tag ''meta'' [(''name'', ''generator''), (''content'', ''Elementor 3.1'')] [],
         Tag ''meta'' [(''name'', ''generator''), (''content'', ''WordPress 5.8'')] []]]"

text \<open>
  The head of a server's directory listing, in which the first column title is a link,
  and a parser that returns it for every page.
\<close>

definition listing_pre :: node where
  "listing_pre =
     Tag ''pre'' []
       [Tag ''a'' [(''href'', ''?C=N;O=D'')] [NavigableString ''Name''],
        NavigableString ''   Last modified    Size  Description'']"

definition listing_env :: "nat env" where
  "listing_env =
     \<lparr>requests_get = stub_get, html_parser = (\<lambda>page. [listing_pre]), urljoin = stub_urljoin\<rparr>"

section \<open>Fetching\<close>

lemma fetch_url_content_fst:
  "fst (fetch_url_content env url st) =
     (case fst (requests_get env url (world st)) of
        Inl e \<Rightarrow> None
      | Inr r \<Rightarrow> if raise_for_status r then None else Some r)"
  by (simp add: fetch_url_content_def Let_def split: sum.splits)

lemma fetch_url_content_snd:
  "snd (fetch_url_content env url st) =
     \<lparr>world = snd (requests_get env url (world st)), events = events st @ [Request url]\<rparr>"
  by (simp add: fetch_url_content_def Let_def split: sum.splits)

lemma truthy_fetch:
  "truthy (fst (fetch_url_content env url st)) = (\<not> fetch_fails env url (world st))"
  by (simp add: fetch_url_content_fst truthy_def fetch_fails_def split: sum.splits)

lemma probed_200:
  "(truthy (fst (fetch_url_content env u st))
      \<and> map_option status_code (fst (fetch_url_content env u st)) = Some 200)
   = answered_200 (fst (requests_get env u (world st)))"
  by (auto simp add: fetch_url_content_fst truthy_def answered_200_def raise_for_status_def
           split: sum.splits)

section \<open>Probing the admin paths\<close>

lemma probe_paths_step:
  "probe_paths env base (path # paths) acc st =
     probe_paths env base paths
       (if answered_200 (fst (requests_get env (urljoin env base path) (world st)))
        then acc @ [urljoin env base path] else acc)
       (snd (fetch_url_content env (urljoin env base path) st))"
  by (simp only: probe_paths.simps Let_def probed_200)

lemma probe_paths_fst:
  "fst (probe_paths env base paths acc st) =
     acc @ map fst (filter (\<lambda>p. answered_200 (snd p))
                      (zip (map (urljoin env base) paths)
                           (replies env (map (urljoin env base) paths) (world st))))"
proof (induction paths arbitrary: acc st)
  case Nil
  show ?case by simp
next
  case (Cons path paths)
  show ?case
    unfolding probe_paths_step by (simp add: Cons.IH fetch_url_content_snd)
qed

lemma probe_paths_snd:
  "snd (probe_paths env base paths acc st) =
     \<lparr>world = world_after env (map (urljoin env base) paths) (world st),
      events = events st @ map (\<lambda>p. Request (urljoin env base p)) paths\<rparr>"
proof (induction paths arbitrary: acc st)
  case Nil
  show ?case by simp
next
  case (Cons path paths)
  show ?case
    unfolding probe_paths_step by (simp add: Cons.IH fetch_url_content_snd)
qed

lemma replies_deterministic:
  assumes "deterministic env"
  shows "replies env us w = replies env us w'"
proof (induction us arbitrary: w w')
  case Nil
  show ?case by simp
next
  case (Cons u us)
  from assms have "fst (requests_get env u w) = fst (requests_get env u w')"
    by (simp add: deterministic_def)
  with Cons.IH show ?case by simp
qed

section \<open>The scan, case by case\<close>

lemma scan_failed:
  assumes "fetch_fails env url (world st)"
  shows "security_scan_website env url st =
           ((initial_results url)\<lparr>errors := [''Could not fetch main URL: '' @ url],
                                   status := ''Failed''\<rparr>,
            \<lparr>world = snd (requests_get env url (world st)), events = events st @ [Request url]\<rparr>)"
  using assms
  by (simp add: security_scan_website_def Let_def truthy_fetch fetch_url_content_snd
        initial_results_def)

lemma scan_completed_fields:
  assumes "\<not> fetch_fails env url (world st)"
  shows "status (fst (security_scan_website env url st)) = ''Completed''"
    and "errors (fst (security_scan_website env url st)) = []"
    and "target_url (fst (security_scan_website env url st)) = url"
  using assms
  by (simp_all add: security_scan_website_def Let_def truthy_fetch initial_results_def)

lemma scan_completed_events:
  assumes "\<not> fetch_fails env url (world st)"
  shows "events (snd (security_scan_website env url st)) =
           events st @ [Request url, Step Record_general_info, Step Check_open_directory,
                        Step Check_outdated_software, Step Check_exposed_admin_panels]
           @ map (\<lambda>p. Request (urljoin env url p)) ADMIN_PATHS"
  using assms
  by (simp add: security_scan_website_def Let_def truthy_fetch check_exposed_admin_panels_def
        probe_paths_snd log_step_def fetch_url_content_snd)

lemma scan_completed_panels:
  assumes "\<not> fetch_fails env url (world st)"
  shows "exposed_admin_panels (findings (fst (security_scan_website env url st))) =
           fst (check_exposed_admin_panels env url
                  \<lparr>world = snd (requests_get env url (world st)),
                   events = events st @ [Request url, Step Record_general_info,
                     Step Check_open_directory, Step Check_outdated_software,
                     Step Check_exposed_admin_panels]\<rparr>)"
  using assms
  by (simp add: security_scan_website_def Let_def truthy_fetch initial_results_def
        log_step_def fetch_url_content_snd)

lemma scan_completed_world:
  assumes "\<not> fetch_fails env url (world st)"
  shows "world (snd (security_scan_website env url st)) =
           world_after env (map (urljoin env url) ADMIN_PATHS)
             (snd (requests_get env url (world st)))"
  using assms
  by (simp add: security_scan_website_def Let_def truthy_fetch check_exposed_admin_panels_def
        probe_paths_snd log_step_def fetch_url_content_snd)

lemma fetch_succeeds:
  assumes "fst (requests_get env url (world st)) = Inr r" and "\<not> raise_for_status r"
  shows "fetch_url_content env url st =
           (Some r, \<lparr>world = snd (requests_get env url (world st)),
                     events = events st @ [Request url]\<rparr>)"
  using assms by (simp add: fetch_url_content_def Let_def)

lemma scan_completed_report:
  assumes "fst (requests_get env url (world st)) = Inr r" and "\<not> raise_for_status r"
  shows "fst (security_scan_website env url st) =
     \<lparr>target_url = url,
      status = ''Completed'',
      findings =
        \<lparr>open_directory = check_open_directory env (Some r),
         outdated_software_indicators = check_outdated_software (html_parser env (resp_text r)),
         exposed_admin_panels =
           fst (check_exposed_admin_panels env url
                  \<lparr>world = snd (requests_get env url (world st)),
                   events = events st @ [Request url, Step Record_general_info,
                     Step Check_open_directory, Step Check_outdated_software,
                     Step Check_exposed_admin_panels]\<rparr>),
         general_info =
           [''Title: '' @ (case soup_title (html_parser env (resp_text r)) of
                             Some title \<Rightarrow> get_text [title] | None \<Rightarrow> ''N/A''),
            ''HTTP Status Code: '' @ str_int (status_code r)]
           @ (if check_open_directory env (Some r)
              then [''Detected potential open directory listing on main URL.''] else [])\<rparr>,
      errors = []\<rparr>"
proof -
  have t: "truthy (Some r)"
    using assms(2) by (simp add: truthy_def)
  show ?thesis
    unfolding security_scan_website_def fetch_succeeds [OF assms]
    using t
    by (simp add: Let_def initial_results_def log_step_def)
qed

lemma stub_down_fails: "fetch_fails stub_env ''https://down.example'' (world stub_start)"
  by (simp add: fetch_fails_def stub_env_def stub_get_def)

lemma stub_main_answers: "\<not> fetch_fails stub_env ''https://example.com'' (world stub_start)"
  by (simp add: fetch_fails_def stub_env_def stub_get_def raise_for_status_def)

section \<open>A failed main fetch\<close>

text \<open>
  C1. When the fetch of the main page fails, by an exception of the transport or by an
  error status, the report returned has status \<open>Failed\<close>, its error list is the one
  message that names the target URL, the findings are what the report started with
  (no open directory, three empty lists), and the scan has done nothing but the one
  request: no step of the scan is entered and no admin path is probed.
\<close>

theorem main_fetch_failure:
  assumes "fetch_fails env url (world st)"
  shows "status (fst (security_scan_website env url st)) = ''Failed''
       \<and> errors (fst (security_scan_website env url st)) = [''Could not fetch main URL: '' @ url]
       \<and> py_in url (''Could not fetch main URL: '' @ url)
       \<and> findings (fst (security_scan_website env url st)) =
           \<lparr>open_directory = False, outdated_software_indicators = [],
            exposed_admin_panels = [], general_info = []\<rparr>
       \<and> events (snd (security_scan_website env url st)) = events st @ [Request url]"
proof -
  have "py_in url (''Could not fetch main URL: '' @ url)"
    unfolding py_in_def by (rule sublist_append_leftI)
  then show ?thesis
    by (simp add: scan_failed [OF assms] initial_results_def)
qed

theorem main_fetch_failure_witness:
  "fetch_fails stub_env ''https://down.example'' (world stub_start)
   \<and> fst (security_scan_website stub_env ''https://down.example'' stub_start) =
       \<lparr>target_url = ''https://down.example'', status = ''Failed'',
        findings = \<lparr>open_directory = False, outdated_software_indicators = [],
                    exposed_admin_panels = [], general_info = []\<rparr>,
        errors = [''Could not fetch main URL: https://down.example'']\<rparr>
   \<and> events (snd (security_scan_website stub_env ''https://down.example'' stub_start)) =
       [Request ''https://down.example'']"
proof -
  note h = stub_down_fails
  have t: "target_url (fst (security_scan_website stub_env ''https://down.example'' stub_start))
             = ''https://down.example''"
    by (simp add: scan_failed [OF h] initial_results_def)
  have e: "events stub_start = []"
    by (simp add: stub_start_def)
  from main_fetch_failure [OF h] h t e show ?thesis
    by (cases "fst (security_scan_website stub_env ''https://down.example'' stub_start)") simp
qed

section \<open>The admin-path prober\<close>

text \<open>
  C2. For every base URL the prober issues one request for each of the ten admin paths
  joined to the base, in the order of the list and whatever the earlier answers were,
  and it returns exactly those joined URLs, in that order, whose request was answered
  by a response with status code 200. In a scan whose main fetch succeeds that list is
  the report's \<open>exposed_admin_panels\<close>, and the report's error list stays empty: a
  probe that fails adds nothing to either.
\<close>

theorem admin_probe_result:
  "ADMIN_PATHS = [''/admin'', ''/administrator'', ''/login'', ''/wp-admin'', ''/dashboard'',
                  ''/cpanel'', ''/phpmyadmin'', ''/webmail'', ''/user/login'', ''/panel'']
   \<and> fst (check_exposed_admin_panels env base st) =
       map fst (filter (\<lambda>p. answered_200 (snd p))
                  (zip (map (urljoin env base) ADMIN_PATHS)
                       (replies env (map (urljoin env base) ADMIN_PATHS) (world st))))
   \<and> events (snd (check_exposed_admin_panels env base st)) =
       events st @ map (\<lambda>p. Request (urljoin env base p)) ADMIN_PATHS
   \<and> (\<not> fetch_fails env base (world st) \<longrightarrow>
        errors (fst (security_scan_website env base st)) = []
        \<and> exposed_admin_panels (findings (fst (security_scan_website env base st))) =
            map fst (filter (\<lambda>p. answered_200 (snd p))
                       (zip (map (urljoin env base) ADMIN_PATHS)
                            (replies env (map (urljoin env base) ADMIN_PATHS)
                               (snd (requests_get env base (world st)))))))"
proof -
  have "ADMIN_PATHS = [''/admin'', ''/administrator'', ''/login'', ''/wp-admin'', ''/dashboard'',
                  ''/cpanel'', ''/phpmyadmin'', ''/webmail'', ''/user/login'', ''/panel'']"
    by (fact ADMIN_PATHS_def)
  moreover have "fst (check_exposed_admin_panels env base st) =
       map fst (filter (\<lambda>p. answered_200 (snd p))
                  (zip (map (urljoin env base) ADMIN_PATHS)
                       (replies env (map (urljoin env base) ADMIN_PATHS) (world st))))"
    by (simp add: check_exposed_admin_panels_def probe_paths_fst)
  moreover have "events (snd (check_exposed_admin_panels env base st)) =
       events st @ map (\<lambda>p. Request (urljoin env base p)) ADMIN_PATHS"
    by (simp add: check_exposed_admin_panels_def probe_paths_snd)
  moreover have "errors (fst (security_scan_website env base st)) = []"
    if "\<not> fetch_fails env base (world st)"
    using that by (rule scan_completed_fields)
  moreover have "exposed_admin_panels (findings (fst (security_scan_website env base st))) =
            map fst (filter (\<lambda>p. answered_200 (snd p))
                       (zip (map (urljoin env base) ADMIN_PATHS)
                            (replies env (map (urljoin env base) ADMIN_PATHS)
                               (snd (requests_get env base (world st))))))"
    if "\<not> fetch_fails env base (world st)"
    by (simp add: scan_completed_panels [OF that] check_exposed_admin_panels_def probe_paths_fst)
  ultimately show ?thesis by blast
qed

theorem admin_probe_result_witness:
  "\<not> fetch_fails stub_env ''https://example.com'' (world stub_start)
   \<and> fst (check_exposed_admin_panels stub_env ''https://example.com'' stub_start) =
       [''https://example.com/login'']
   \<and> exposed_admin_panels (findings (fst (security_scan_website stub_env ''https://example.com'' stub_start))) =
       [''https://example.com/login'']
   \<and> errors (fst (security_scan_website stub_env ''https://example.com'' stub_start)) = []"
proof -
  note h = stub_main_answers
  have j: "map (urljoin stub_env ''https://example.com'') ADMIN_PATHS =
      [''https://example.com/admin'', ''https://example.com/administrator'',
       ''https://example.com/login'', ''https://example.com/wp-admin'',
       ''https://example.com/dashboard'', ''https://example.com/cpanel'',
       ''https://example.com/phpmyadmin'', ''https://example.com/webmail'',
       ''https://example.com/user/login'', ''https://example.com/panel'']"
    by (simp add: ADMIN_PATHS_def stub_env_def stub_urljoin_def)
  have r: "map fst (filter (\<lambda>p. answered_200 (snd p))
                  (zip (map (urljoin stub_env ''https://example.com'') ADMIN_PATHS)
                       (replies stub_env (map (urljoin stub_env ''https://example.com'') ADMIN_PATHS) w)))
           = [''https://example.com/login'']" for w
    unfolding j by (simp add: stub_env_def stub_get_def answered_200_def)
  from admin_probe_result [of stub_env "''https://example.com''" stub_start] h r
  show ?thesis by simp
qed

section \<open>The status of the report\<close>

lemma stub_main_reply:
  "fst (requests_get stub_env ''https://example.com'' (world stub_start)) =
     Inr \<lparr>status_code = 200, resp_text = stub_page\<rparr>"
  by (simp add: stub_env_def stub_get_def)

lemma stub_main_report_parts:
  "\<not> raise_for_status \<lparr>status_code = 200, resp_text = stub_page\<rparr>"
  "check_open_directory stub_env (Some \<lparr>status_code = 200, resp_text = stub_page\<rparr>)"
  "check_outdated_software (html_parser stub_env (resp_text \<lparr>status_code = 200, resp_text = stub_page\<rparr>)) = []"
  "(case soup_title (html_parser stub_env (resp_text \<lparr>status_code = 200, resp_text = stub_page\<rparr>)) of
      Some title \<Rightarrow> get_text [title] | None \<Rightarrow> ''N/A'') = ''Index of /test''"
  "str_int (status_code \<lparr>status_code = 200, resp_text = stub_page\<rparr>) = ''200''"
  by code_simp+

lemma stub_main_panels:
  "fst (check_exposed_admin_panels stub_env ''https://example.com'' s) = [''https://example.com/login'']"
proof -
  have j: "map (urljoin stub_env ''https://example.com'') ADMIN_PATHS =
      [''https://example.com/admin'', ''https://example.com/administrator'',
       ''https://example.com/login'', ''https://example.com/wp-admin'',
       ''https://example.com/dashboard'', ''https://example.com/cpanel'',
       ''https://example.com/phpmyadmin'', ''https://example.com/webmail'',
       ''https://example.com/user/login'', ''https://example.com/panel'']"
    by (simp add: ADMIN_PATHS_def stub_env_def stub_urljoin_def)
  show ?thesis
    unfolding check_exposed_admin_panels_def probe_paths_fst j
    by (simp add: stub_env_def stub_get_def answered_200_def)
qed

text \<open>
  C7. The report starts with status \<open>Incomplete\<close> and is never returned with it. The
  status returned is \<open>Failed\<close> exactly when the main fetch fails; the scan then stops
  after that one request and returns the report it started with, the error added. The
  status is \<open>Completed\<close> exactly when the main fetch succeeds with a response. The
  report then holds what the four steps give for that response, put together in their
  order: the title and the status code as the first two entries of the general
  information; the flag of the directory-listing check, and its message as the third
  entry when the flag is set; the findings of the software-version check on the parsed
  page; and the panels found by probing the ten admin paths, which starts from the world
  the main fetch has left. The requests are issued in that order, the main one first.
\<close>

theorem scan_status:
  "status (initial_results url) = ''Incomplete''
   \<and> status (fst (security_scan_website env url st)) \<noteq> ''Incomplete''
   \<and> (status (fst (security_scan_website env url st)) = ''Failed''
        \<longleftrightarrow> fetch_fails env url (world st))
   \<and> (status (fst (security_scan_website env url st)) = ''Completed''
        \<longleftrightarrow> \<not> fetch_fails env url (world st))
   \<and> (fetch_fails env url (world st) \<longrightarrow>
        events (snd (security_scan_website env url st)) = events st @ [Request url])
   \<and> (\<not> fetch_fails env url (world st) \<longrightarrow>
        events (snd (security_scan_website env url st)) =
          events st @ [Request url, Step Record_general_info, Step Check_open_directory,
                       Step Check_outdated_software, Step Check_exposed_admin_panels]
          @ map (\<lambda>p. Request (urljoin env url p)) ADMIN_PATHS)
   \<and> (fetch_fails env url (world st) \<longrightarrow>
        fst (security_scan_website env url st) =
          \<lparr>target_url = url,
           status = ''Failed'',
           findings = \<lparr>open_directory = False, outdated_software_indicators = [],
                       exposed_admin_panels = [], general_info = []\<rparr>,
           errors = [''Could not fetch main URL: '' @ url]\<rparr>)
   \<and> (\<not> fetch_fails env url (world st) \<longleftrightarrow>
        (\<exists>r. fst (requests_get env url (world st)) = Inr r \<and> \<not> raise_for_status r))
   \<and> (fst (requests_get env url (world st)) = Inr r \<and> \<not> raise_for_status r \<longrightarrow>
        fst (security_scan_website env url st) =
          \<lparr>target_url = url,
           status = ''Completed'',
           findings =
             \<lparr>open_directory = check_open_directory env (Some r),
              outdated_software_indicators =
                check_outdated_software (html_parser env (resp_text r)),
              exposed_admin_panels =
                fst (check_exposed_admin_panels env url
                       \<lparr>world = snd (requests_get env url (world st)),
                        events = events st @ [Request url, Step Record_general_info,
                          Step Check_open_directory, Step Check_outdated_software,
                          Step Check_exposed_admin_panels]\<rparr>),
              general_info =
                [''Title: '' @ (case soup_title (html_parser env (resp_text r)) of
                                  Some title \<Rightarrow> get_text [title] | None \<Rightarrow> ''N/A''),
                 ''HTTP Status Code: '' @ str_int (status_code r)]
                @ (if check_open_directory env (Some r)
                   then [''Detected potential open directory listing on main URL.'']
                   else [])\<rparr>,
           errors = []\<rparr>)"
proof -
  have i: "status (initial_results url) = ''Incomplete''"
    by (simp add: initial_results_def)
  have f: "fst (security_scan_website env url st) =
          \<lparr>target_url = url,
           status = ''Failed'',
           findings = \<lparr>open_directory = False, outdated_software_indicators = [],
                       exposed_admin_panels = [], general_info = []\<rparr>,
           errors = [''Could not fetch main URL: '' @ url]\<rparr>"
    if "fetch_fails env url (world st)"
    by (simp add: scan_failed [OF that] initial_results_def)
  have fe: "events (snd (security_scan_website env url st)) = events st @ [Request url]"
    if "fetch_fails env url (world st)"
    by (simp add: scan_failed [OF that])
  have c: "status (fst (security_scan_website env url st)) = ''Completed''"
    if "\<not> fetch_fails env url (world st)"
    using that by (rule scan_completed_fields)
  have x: "\<not> fetch_fails env url (world st) \<longleftrightarrow>
        (\<exists>r. fst (requests_get env url (world st)) = Inr r \<and> \<not> raise_for_status r)"
    by (cases "fst (requests_get env url (world st))") (simp_all add: fetch_fails_def)
  have r: "fst (requests_get env url (world st)) = Inr r \<and> \<not> raise_for_status r \<longrightarrow>
        fst (security_scan_website env url st) =
          \<lparr>target_url = url,
           status = ''Completed'',
           findings =
             \<lparr>open_directory = check_open_directory env (Some r),
              outdated_software_indicators =
                check_outdated_software (html_parser env (resp_text r)),
              exposed_admin_panels =
                fst (check_exposed_admin_panels env url
                       \<lparr>world = snd (requests_get env url (world st)),
                        events = events st @ [Request url, Step Record_general_info,
                          Step Check_open_directory, Step Check_outdated_software,
                          Step Check_exposed_admin_panels]\<rparr>),
              general_info =
                [''Title: '' @ (case soup_title (html_parser env (resp_text r)) of
                                  Some title \<Rightarrow> get_text [title] | None \<Rightarrow> ''N/A''),
                 ''HTTP Status Code: '' @ str_int (status_code r)]
                @ (if check_open_directory env (Some r)
                   then [''Detected potential open directory listing on main URL.'']
                   else [])\<rparr>,
           errors = []\<rparr>"
    using scan_completed_report [of env url st r] by blast
  show ?thesis
  proof (cases "fetch_fails env url (world st)")
    case True
    from f [OF True] have "status (fst (security_scan_website env url st)) = ''Failed''"
      by simp
    with True i fe [OF True] f [OF True] x r show ?thesis
      by simp
  next
    case False
    with i c [OF False] scan_completed_events [OF False] x r show ?thesis
      by simp
  qed
qed

theorem scan_status_witness:
  "fetch_fails stub_env ''https://down.example'' (world stub_start)
   \<and> fst (security_scan_website stub_env ''https://down.example'' stub_start) =
       \<lparr>target_url = ''https://down.example'', status = ''Failed'',
        findings = \<lparr>open_directory = False, outdated_software_indicators = [],
                    exposed_admin_panels = [], general_info = []\<rparr>,
        errors = [''Could not fetch main URL: https://down.example'']\<rparr>
   \<and> events (snd (security_scan_website stub_env ''https://down.example'' stub_start)) =
       [Request ''https://down.example'']
   \<and> \<not> fetch_fails stub_env ''https://example.com'' (world stub_start)
   \<and> fst (requests_get stub_env ''https://example.com'' (world stub_start)) =
       Inr \<lparr>status_code = 200, resp_text = stub_page\<rparr>
   \<and> \<not> raise_for_status \<lparr>status_code = 200, resp_text = stub_page\<rparr>
   \<and> fst (security_scan_website stub_env ''https://example.com'' stub_start) =
       \<lparr>target_url = ''https://example.com'', status = ''Completed'',
        findings = \<lparr>open_directory = True, outdated_software_indicators = [],
                    exposed_admin_panels = [''https://example.com/login''],
                    general_info = [''Title: Index of /test'', ''HTTP Status Code: 200'',
                                    ''Detected potential open directory listing on main URL.'']\<rparr>,
        errors = []\<rparr>
   \<and> events (snd (security_scan_website stub_env ''https://example.com'' stub_start)) =
       [Request ''https://example.com'', Step Record_general_info, Step Check_open_directory,
        Step Check_outdated_software, Step Check_exposed_admin_panels,
        Request ''https://example.com/admin'', Request ''https://example.com/administrator'',
        Request ''https://example.com/login'', Request ''https://example.com/wp-admin'',
        Request ''https://example.com/dashboard'', Request ''https://example.com/cpanel'',
        Request ''https://example.com/phpmyadmin'', Request ''https://example.com/webmail'',
        Request ''https://example.com/user/login'', Request ''https://example.com/panel'']"
proof -
  let ?r = "\<lparr>status_code = 200, resp_text = stub_page\<rparr>"
  have j: "map (\<lambda>p. Request (urljoin stub_env ''https://example.com'' p)) ADMIN_PATHS =
      [Request ''https://example.com/admin'', Request ''https://example.com/administrator'',
        Request ''https://example.com/login'', Request ''https://example.com/wp-admin'',
        Request ''https://example.com/dashboard'', Request ''https://example.com/cpanel'',
        Request ''https://example.com/phpmyadmin'', Request ''https://example.com/webmail'',
        Request ''https://example.com/user/login'', Request ''https://example.com/panel'']"
    by (simp add: ADMIN_PATHS_def stub_env_def stub_urljoin_def)
  have e: "events stub_start = []"
    by (simp add: stub_start_def)
  note d = scan_status [of "''https://down.example''" stub_env stub_start ?r]
  note u = scan_status [of "''https://example.com''" stub_env stub_start ?r]
  from d stub_down_fails
  have a: "fst (security_scan_website stub_env ''https://down.example'' stub_start) =
       \<lparr>target_url = ''https://down.example'', status = ''Failed'',
        findings = \<lparr>open_directory = False, outdated_software_indicators = [],
                    exposed_admin_panels = [], general_info = []\<rparr>,
        errors = [''Could not fetch main URL: https://down.example'']\<rparr>"
    by simp
  from d stub_down_fails e
  have b: "events (snd (security_scan_website stub_env ''https://down.example'' stub_start)) =
       [Request ''https://down.example'']"
    by simp
  from u stub_main_reply stub_main_report_parts(1)
  have "fst (security_scan_website stub_env ''https://example.com'' stub_start) =
          \<lparr>target_url = ''https://example.com'',
           status = ''Completed'',
           findings =
             \<lparr>open_directory = check_open_directory stub_env (Some ?r),
              outdated_software_indicators =
                check_outdated_software (html_parser stub_env (resp_text ?r)),
              exposed_admin_panels =
                fst (check_exposed_admin_panels stub_env ''https://example.com''
                       \<lparr>world = snd (requests_get stub_env ''https://example.com'' (world stub_start)),
                        events = events stub_start @ [Request ''https://example.com'',
                          Step Record_general_info,
                          Step Check_open_directory, Step Check_outdated_software,
                          Step Check_exposed_admin_panels]\<rparr>),
              general_info =
                [''Title: '' @ (case soup_title (html_parser stub_env (resp_text ?r)) of
                                  Some title \<Rightarrow> get_text [title] | None \<Rightarrow> ''N/A''),
                 ''HTTP Status Code: '' @ str_int (status_code ?r)]
                @ (if check_open_directory stub_env (Some ?r)
                   then [''Detected potential open directory listing on main URL.'']
                   else [])\<rparr>,
           errors = []\<rparr>"
    by blast
  then have c: "fst (security_scan_website stub_env ''https://example.com'' stub_start) =
       \<lparr>target_url = ''https://example.com'', status = ''Completed'',
        findings = \<lparr>open_directory = True, outdated_software_indicators = [],
                    exposed_admin_panels = [''https://example.com/login''],
                    general_info = [''Title: Index of /test'', ''HTTP Status Code: 200'',
                                    ''Detected potential open directory listing on main URL.'']\<rparr>,
        errors = []\<rparr>"
    unfolding stub_main_panels stub_main_report_parts(3,4,5)
    using stub_main_report_parts(2) by simp
  from u stub_main_answers j e
  have f: "events (snd (security_scan_website stub_env ''https://example.com'' stub_start)) =
       [Request ''https://example.com'', Step Record_general_info, Step Check_open_directory,
        Step Check_outdated_software, Step Check_exposed_admin_panels,
        Request ''https://example.com/admin'', Request ''https://example.com/administrator'',
        Request ''https://example.com/login'', Request ''https://example.com/wp-admin'',
        Request ''https://example.com/dashboard'', Request ''https://example.com/cpanel'',
        Request ''https://example.com/phpmyadmin'', Request ''https://example.com/webmail'',
        Request ''https://example.com/user/login'', Request ''https://example.com/panel'']"
    by simp
  show ?thesis
    by (intro conjI stub_down_fails a b stub_main_answers stub_main_reply
          stub_main_report_parts(1) c f)
qed

section \<open>Errors and status\<close>

text \<open>
  C10. In every report the scan returns, the error list is empty exactly when the
  status is \<open>Completed\<close> and non-empty exactly when it is \<open>Failed\<close>; the field
  \<open>target_url\<close> is the URL the scan was given, also when the scan failed.
\<close>

theorem errors_iff_failed:
  "(errors (fst (security_scan_website env url st)) = []
      \<longleftrightarrow> status (fst (security_scan_website env url st)) = ''Completed'')
   \<and> (errors (fst (security_scan_website env url st)) \<noteq> []
      \<longleftrightarrow> status (fst (security_scan_website env url st)) = ''Failed'')
   \<and> (status (fst (security_scan_website env url st)) = ''Failed''
      \<longrightarrow> target_url (fst (security_scan_website env url st)) = url)
   \<and> target_url (fst (security_scan_website env url st)) = url"
proof (cases "fetch_fails env url (world st)")
  case True
  then show ?thesis
    by (simp add: scan_failed initial_results_def)
next
  case False
  then show ?thesis
    by (simp add: scan_completed_fields)
qed

theorem errors_iff_failed_witness:
  "status (fst (security_scan_website stub_env ''https://down.example'' stub_start)) = ''Failed''
   \<and> errors (fst (security_scan_website stub_env ''https://down.example'' stub_start)) \<noteq> []
   \<and> target_url (fst (security_scan_website stub_env ''https://down.example'' stub_start)) =
       ''https://down.example''"
proof -
  have "status (fst (security_scan_website stub_env ''https://down.example'' stub_start)) = ''Failed''"
    by (simp add: scan_failed [OF stub_down_fails])
  with errors_iff_failed [of stub_env "''https://down.example''" stub_start]
  show ?thesis by simp
qed

section \<open>Scanning twice\<close>

lemma report_independent_of_state:
  assumes "deterministic env"
  shows "fst (security_scan_website env url st) = fst (security_scan_website env url st')"
proof -
  from assms have "\<exists>a. \<forall>w. fst (requests_get env url w) = a"
    unfolding deterministic_def by blast
  then obtain a where a: "\<And>w. fst (requests_get env url w) = a"
    by blast
  have "\<exists>fetched. \<forall>s. fst (fetch_url_content env url s) = fetched"
    by (simp add: fetch_url_content_fst a)
  then obtain fetched where f: "\<And>s. fst (fetch_url_content env url s) = fetched"
    by blast
  have "\<exists>rs. \<forall>w. replies env (map (urljoin env url) ADMIN_PATHS) w = rs"
    using replies_deterministic [OF assms] by blast
  then obtain rs where rs: "\<And>w. replies env (map (urljoin env url) ADMIN_PATHS) w = rs"
    by blast
  have "\<exists>panels. \<forall>s. fst (check_exposed_admin_panels env url s) = panels"
    by (simp add: check_exposed_admin_panels_def probe_paths_fst rs)
  then obtain panels where p: "\<And>s. fst (check_exposed_admin_panels env url s) = panels"
    by blast
  show ?thesis
    by (simp only: security_scan_website_def Let_def f p if_distrib [of fst] fst_conv)
qed

text \<open>
  C9. Against a deterministic target, one whose answer to a request depends on the URL
  alone, however the requests change the world behind it, a second scan of the same URL,
  run after the first, returns the same report as the first: the same status, the same
  flag, the same lists in the same order.
\<close>

theorem scan_twice_same_report:
  assumes "deterministic env"
  shows "fst (security_scan_website env url (snd (security_scan_website env url st))) =
         fst (security_scan_website env url st)"
  using assms by (rule report_independent_of_state)

lemma stub_deterministic: "deterministic stub_env"
  by (simp add: deterministic_def stub_env_def stub_get_def)

theorem scan_twice_same_report_witness:
  "deterministic stub_env
   \<and> world (snd (security_scan_website stub_env ''https://example.com'' stub_start)) \<noteq> world stub_start
   \<and> fst (security_scan_website stub_env ''https://example.com''
            (snd (security_scan_website stub_env ''https://example.com'' stub_start))) =
       fst (security_scan_website stub_env ''https://example.com'' stub_start)"
proof -
  have "world (snd (security_scan_website stub_env ''https://example.com'' stub_start)) \<noteq> world stub_start"
    unfolding scan_completed_world [OF stub_main_answers]
    by (simp add: ADMIN_PATHS_def stub_env_def stub_get_def stub_start_def)
  with scan_twice_same_report [OF stub_deterministic, of "''https://example.com''" stub_start]
       stub_deterministic
  show ?thesis by simp
qed

section \<open>The URL the operator's loop scans\<close>

text \<open>
  C8, as the code has it. The line read is stripped of surrounding white space first.
  When what is left is not empty and is not \<open>exit\<close> in any letter case, the loop
  scans it: unchanged when it starts with \<open>http://\<close> or with \<open>https://\<close>, written
  so, and with \<open>https://\<close> put before it otherwise. The report of that scan is the
  first the loop produces from there.
\<close>

theorem read_url_scheme:
  assumes "strip line \<noteq> []" and "py_lower (strip line) \<noteq> ''exit''"
  shows "read_url line =
           Scan (if startswith (strip line) ''http://'' \<or> startswith (strip line) ''https://''
                 then strip line else ''https://'' @ strip line)
       \<and> fst (main_loop env (line # lines) st) =
           fst (security_scan_website env
                  (if startswith (strip line) ''http://'' \<or> startswith (strip line) ''https://''
                   then strip line else ''https://'' @ strip line) st)
           # fst (main_loop env lines
                    (snd (security_scan_website env
                       (if startswith (strip line) ''http://'' \<or> startswith (strip line) ''https://''
                        then strip line else ''https://'' @ strip line) st)))"
proof -
  have r: "read_url line =
           Scan (if startswith (strip line) ''http://'' \<or> startswith (strip line) ''https://''
                 then strip line else ''https://'' @ strip line)"
    using assms by (simp add: read_url_def Let_def)
  show ?thesis
    unfolding main_loop.simps r by (simp add: Let_def)
qed

theorem read_url_scheme_witness:
  "read_url ''example.com'' = Scan ''https://example.com''
   \<and> read_url ''http://example.com'' = Scan ''http://example.com''
   \<and> target_url (hd (fst (main_loop stub_env [''example.com''] stub_start))) = ''https://example.com''"
proof -
  have s1: "strip ''example.com'' = ''example.com''"
    by code_simp
  have s2: "strip ''http://example.com'' = ''http://example.com''"
    by code_simp
  have l1: "py_lower ''example.com'' \<noteq> ''exit''"
    by code_simp
  have l2: "py_lower ''http://example.com'' \<noteq> ''exit''"
    by code_simp
  have p1: "\<not> startswith ''example.com'' ''http://''" "\<not> startswith ''example.com'' ''https://''"
    by (simp_all add: startswith_def)
  have p2: "startswith ''http://example.com'' ''http://''"
    by (simp add: startswith_def)
  have t: "target_url (fst (security_scan_website stub_env ''https://example.com'' stub_start)) =
             ''https://example.com''"
    by (simp add: scan_completed_fields [OF stub_main_answers])
  from read_url_scheme [of "''example.com''" stub_env "[]" stub_start] s1 l1 p1
  have a: "read_url ''example.com'' = Scan ''https://example.com''
         \<and> fst (main_loop stub_env [''example.com''] stub_start) =
             [fst (security_scan_website stub_env ''https://example.com'' stub_start)]"
    by (simp del: main_loop.simps(2))
  from read_url_scheme [of "''http://example.com''" stub_env "[]" stub_start] s2 l2 p2
  have b: "read_url ''http://example.com'' = Scan ''http://example.com''"
    by (simp del: main_loop.simps(2))
  from a b t show ?thesis
    by (simp del: main_loop.simps(2))
qed

text \<open>
  The claim as it is written fails on lines such as these: a URL with another scheme
  gets \<open>https://\<close> put before it, \<open>EXIT\<close> leaves the loop with no scan, and white
  space around the URL is dropped before the scan.
\<close>

theorem read_url_scheme_counterexample:
  "read_url ''ftp://example.com'' = Scan ''https://ftp://example.com''
   \<and> read_url ''HTTP://example.com'' = Scan ''https://HTTP://example.com''
   \<and> read_url ''EXIT'' = Quit
   \<and> read_url '' example.com'' = Scan ''https://example.com''"
  by code_simp

section \<open>The matcher and the meaning of the patterns\<close>

lemma take_within_takeWhile:
  "n \<le> length (takeWhile P s) \<Longrightarrow> take n s = take n (takeWhile P s)"
proof (induction s arbitrary: n)
  case Nil
  then show ?case by simp
next
  case (Cons c s)
  then show ?case
    by (cases n) (auto split: if_splits)
qed

lemma matches_sound:
  "(w, g, rest) \<in> set (matches ic r s) \<Longrightarrow> s = w @ rest \<and> w \<in> lang ic r"
proof (induction r arbitrary: w g rest s)
  case Eps
  then show ?case by simp
next
  case (Atom a)
  then show ?case by (auto split: list.splits if_splits)
next
  case (Plus a)
  from Plus obtain n where n: "1 \<le> n" "n \<le> length (takeWhile (atom_ok ic a) s)"
    and w: "w = take n s" and rest: "rest = drop n s"
    by auto
  have "set (take n s) \<subseteq> set (takeWhile (atom_ok ic a) s)"
    using n(2) by (metis set_take_subset take_within_takeWhile)
  then have "\<forall>c \<in> set (take n s). atom_ok ic a c"
    by (auto dest: set_takeWhileD)
  moreover have "take n s \<noteq> []"
    using n length_takeWhile_le [of "atom_ok ic a" s] by auto
  ultimately show ?case
    using w rest by simp
next
  case (Seq r1 r2)
  from Seq.prems obtain m1 m2 where m1: "m1 \<in> set (matches ic r1 s)"
    and m2: "m2 \<in> set (matches ic r2 (snd (snd m1)))"
    and eq: "w = fst m1 @ fst m2" "rest = snd (snd m2)"
    by auto
  from Seq.IH(1) [of "fst m1" "fst (snd m1)" "snd (snd m1)" s] m1
  have a: "s = fst m1 @ snd (snd m1)" "fst m1 \<in> lang ic r1"
    by simp_all
  from Seq.IH(2) [of "fst m2" "fst (snd m2)" "snd (snd m2)" "snd (snd m1)"] m2
  have b: "snd (snd m1) = fst m2 @ snd (snd m2)" "fst m2 \<in> lang ic r2"
    by simp_all
  from a b eq show ?case
    by auto
next
  case (Alt r1 r2)
  then show ?case by auto
next
  case (Opt r)
  then show ?case by auto
next
  case (Group n r)
  from Group.prems obtain m where m: "m \<in> set (matches ic r s)"
    and eq: "w = fst m" "rest = snd (snd m)"
    by auto
  from Group.IH [of "fst m" "fst (snd m)" "snd (snd m)" s] m eq show ?case
    by simp
qed

lemma matches_complete:
  "w \<in> lang ic r \<Longrightarrow> \<exists>g. (w, g, rest) \<in> set (matches ic r (w @ rest))"
proof (induction r arbitrary: w rest)
  case Eps
  then show ?case by simp
next
  case (Atom a)
  then show ?case by auto
next
  case (Plus a)
  then have w: "w \<noteq> []" "\<forall>c \<in> set w. atom_ok ic a c"
    by simp_all
  then have "length w \<le> length (takeWhile (atom_ok ic a) (w @ rest))"
    by (simp add: takeWhile_append2)
  moreover from w have "1 \<le> length w"
    by (cases w) simp_all
  ultimately have "length w \<in> set (rev [1 ..< Suc (length (takeWhile (atom_ok ic a) (w @ rest)))])"
    by auto
  then have "(take (length w) (w @ rest), [], drop (length w) (w @ rest))
               \<in> set (matches ic (Plus a) (w @ rest))"
    unfolding matches.simps set_map by (rule imageI)
  then show ?case
    by auto
next
  case (Seq r1 r2)
  from Seq.prems obtain u v where uv: "w = u @ v" "u \<in> lang ic r1" "v \<in> lang ic r2"
    by auto
  from Seq.IH(1) [OF uv(2), of "v @ rest"] obtain g1
    where g1: "(u, g1, v @ rest) \<in> set (matches ic r1 (u @ v @ rest))"
    by blast
  from Seq.IH(2) [OF uv(3), of rest] obtain g2
    where g2: "(v, g2, rest) \<in> set (matches ic r2 (v @ rest))"
    by blast
  from g1 g2 have "(u @ v, g1 @ g2, rest) \<in> set (matches ic (Seq r1 r2) (u @ v @ rest))"
    by (force simp add: image_iff)
  with uv(1) show ?case
    by auto
next
  case (Alt r1 r2)
  then show ?case by simp blast
next
  case (Opt r)
  then show ?case by simp blast
next
  case (Group n r)
  then have "w \<in> lang ic r" by simp
  from Group.IH [OF this, of rest] obtain g where "(w, g, rest) \<in> set (matches ic r (w @ rest))"
    by blast
  then have "(w, g @ [(n, w)], rest) \<in> set (matches ic (Group n r) (w @ rest))"
    by (force simp add: image_iff)
  then show ?case
    by blast
qed

lemma matches_Nil_iff:
  "matches ic r s = [] \<longleftrightarrow> \<not> (\<exists>w \<in> lang ic r. prefix w s)"
proof
  assume e: "matches ic r s = []"
  show "\<not> (\<exists>w \<in> lang ic r. prefix w s)"
  proof
    assume "\<exists>w \<in> lang ic r. prefix w s"
    then obtain w rest where "w \<in> lang ic r" "s = w @ rest"
      by (auto simp add: prefix_def)
    with matches_complete [of w ic r rest] e show False
      by auto
  qed
next
  assume n: "\<not> (\<exists>w \<in> lang ic r. prefix w s)"
  show "matches ic r s = []"
  proof (cases "matches ic r s")
    case Nil
    then show ?thesis .
  next
    case (Cons m ms)
    then have "(fst m, fst (snd m), snd (snd m)) \<in> set (matches ic r s)"
      by simp
    from matches_sound [OF this] n show ?thesis
      by (auto simp add: prefix_def)
  qed
qed

lemma search_from_Some:
  "search_from ic r i s = Some m \<Longrightarrow>
     \<exists>n \<le> length s. m_start m = i + n \<and> group0 m \<in> lang ic r
        \<and> prefix (group0 m) (drop n s)
        \<and> (\<forall>k < n. \<not> (\<exists>w \<in> lang ic r. prefix w (drop k s)))"
proof (induction s arbitrary: i)
  case Nil
  show ?case
  proof (cases "matches ic r []")
    case Nil
    with Nil.prems show ?thesis
      by (simp add: search_from.simps [of ic r i "[]"])
  next
    case (Cons x xs)
    with Nil.prems have m: "m = \<lparr>m_start = i, group0 = fst x, m_groups = fst (snd x)\<rparr>"
      by (simp add: search_from.simps [of ic r i "[]"])
    from Cons have "(fst x, fst (snd x), snd (snd x)) \<in> set (matches ic r [])"
      by simp
    from matches_sound [OF this] m show ?thesis
      by auto
  qed
next
  case (Cons c cs)
  show ?case
  proof (cases "matches ic r (c # cs)")
    case Nil
    with Cons.prems have "search_from ic r (Suc i) cs = Some m"
      by (simp add: search_from.simps [of ic r i "c # cs"])
    from Cons.IH [OF this] obtain n where n: "n \<le> length cs" "m_start m = Suc i + n"
      "group0 m \<in> lang ic r" "prefix (group0 m) (drop n cs)"
      "\<forall>k < n. \<not> (\<exists>w \<in> lang ic r. prefix w (drop k cs))"
      by blast
    from Nil have z: "\<not> (\<exists>w \<in> lang ic r. prefix w (c # cs))"
      by (simp add: matches_Nil_iff)
    have "\<forall>k < Suc n. \<not> (\<exists>w \<in> lang ic r. prefix w (drop k (c # cs)))"
    proof (intro allI impI)
      fix k
      assume "k < Suc n"
      with n(5) z show "\<not> (\<exists>w \<in> lang ic r. prefix w (drop k (c # cs)))"
        by (cases k) simp_all
    qed
    with n show ?thesis
      by (intro exI [of _ "Suc n"]) simp
  next
    case (Cons x xs)
    with Cons.prems have m: "m = \<lparr>m_start = i, group0 = fst x, m_groups = fst (snd x)\<rparr>"
      by (simp add: search_from.simps [of ic r i "c # cs"])
    from Cons have "(fst x, fst (snd x), snd (snd x)) \<in> set (matches ic r (c # cs))"
      by simp
    from matches_sound [OF this] m show ?thesis
      by (intro exI [of _ 0]) simp
  qed
qed

lemma search_from_None:
  "search_from ic r i s = None \<longleftrightarrow>
     (\<forall>n \<le> length s. \<not> (\<exists>w \<in> lang ic r. prefix w (drop n s)))"
proof (induction s arbitrary: i)
  case Nil
  show ?case
    using matches_Nil_iff [of ic r "[]"]
    by (cases "matches ic r []") (auto simp add: search_from.simps [of ic r i "[]"])
next
  case (Cons c cs)
  show ?case
  proof (cases "matches ic r (c # cs)")
    case Nil
    then have z: "\<not> (\<exists>w \<in> lang ic r. prefix w (c # cs))"
      by (simp add: matches_Nil_iff)
    from Nil have "search_from ic r i (c # cs) = search_from ic r (Suc i) cs"
      by (simp add: search_from.simps [of ic r i "c # cs"])
    also have "\<dots> = None \<longleftrightarrow> (\<forall>n \<le> length cs. \<not> (\<exists>w \<in> lang ic r. prefix w (drop n cs)))"
      by (rule Cons.IH)
    also have "\<dots> \<longleftrightarrow> (\<forall>n \<le> length (c # cs). \<not> (\<exists>w \<in> lang ic r. prefix w (drop n (c # cs))))"
    proof
      assume a: "\<forall>n \<le> length cs. \<not> (\<exists>w \<in> lang ic r. prefix w (drop n cs))"
      show "\<forall>n \<le> length (c # cs). \<not> (\<exists>w \<in> lang ic r. prefix w (drop n (c # cs)))"
      proof (intro allI impI)
        fix n
        assume "n \<le> length (c # cs)"
        with a z show "\<not> (\<exists>w \<in> lang ic r. prefix w (drop n (c # cs)))"
          by (cases n) simp_all
      qed
    next
      assume a: "\<forall>n \<le> length (c # cs). \<not> (\<exists>w \<in> lang ic r. prefix w (drop n (c # cs)))"
      show "\<forall>n \<le> length cs. \<not> (\<exists>w \<in> lang ic r. prefix w (drop n cs))"
      proof (intro allI impI)
        fix n
        assume "n \<le> length cs"
        with a [rule_format, of "Suc n"] show "\<not> (\<exists>w \<in> lang ic r. prefix w (drop n cs))"
          by simp
      qed
    qed
    finally show ?thesis .
  next
    case (Cons x xs)
    then have "matches ic r (c # cs) \<noteq> []"
      by simp
    then have "\<exists>w \<in> lang ic r. prefix w (drop 0 (c # cs))"
      by (simp add: matches_Nil_iff)
    then have "\<not> (\<forall>n \<le> length (c # cs). \<not> (\<exists>w \<in> lang ic r. prefix w (drop n (c # cs))))"
      by blast
    moreover from Cons have "search_from ic r i (c # cs) \<noteq> None"
      by (simp add: search_from.simps [of ic r i "c # cs"])
    ultimately show ?thesis
      by blast
  qed
qed

lemma re_search_Some:
  assumes "re_search ic r s = Some m"
  shows "matches_at ic r s (m_start m)"
    and "\<forall>k < m_start m. \<not> matches_at ic r s k"
    and "group0 m \<in> lang ic r"
    and "prefix (group0 m) (drop (m_start m) s)"
proof -
  from assms have "search_from ic r 0 s = Some m"
    by (simp add: re_search_def)
  from search_from_Some [OF this] obtain n where n: "n \<le> length s" "m_start m = n"
    "group0 m \<in> lang ic r" "prefix (group0 m) (drop n s)"
    "\<forall>k < n. \<not> (\<exists>w \<in> lang ic r. prefix w (drop k s))"
    by auto
  from n show "matches_at ic r s (m_start m)"
    by (auto simp add: matches_at_def)
  from n show "\<forall>k < m_start m. \<not> matches_at ic r s k"
    by (simp add: matches_at_def)
  from n show "group0 m \<in> lang ic r"
    by simp
  from n show "prefix (group0 m) (drop (m_start m) s)"
    by simp
qed

lemma search_from_head:
  "search_from ic r i s = Some m \<Longrightarrow>
     \<exists>n \<le> length s. m_start m = i + n
        \<and> (\<exists>rest ms. matches ic r (drop n s) = (group0 m, m_groups m, rest) # ms)"
proof (induction s arbitrary: i)
  case Nil
  show ?case
  proof (cases "matches ic r []")
    case Nil
    with Nil.prems show ?thesis
      by (simp add: search_from.simps [of ic r i "[]"])
  next
    case (Cons x xs)
    with Nil.prems have m: "m = \<lparr>m_start = i, group0 = fst x, m_groups = fst (snd x)\<rparr>"
      by (simp add: search_from.simps [of ic r i "[]"])
    from Cons m have "matches ic r (drop 0 []) = (group0 m, m_groups m, snd (snd x)) # xs"
      by simp
    then have "\<exists>rest ms. matches ic r (drop 0 []) = (group0 m, m_groups m, rest) # ms"
      by blast
    with m show ?thesis
      by (intro exI [of _ 0]) simp
  qed
next
  case (Cons c cs)
  show ?case
  proof (cases "matches ic r (c # cs)")
    case Nil
    with Cons.prems have "search_from ic r (Suc i) cs = Some m"
      by (simp add: search_from.simps [of ic r i "c # cs"])
    from Cons.IH [OF this] obtain n rest ms where n: "n \<le> length cs" "m_start m = Suc i + n"
      "matches ic r (drop n cs) = (group0 m, m_groups m, rest) # ms"
      by blast
    then have "Suc n \<le> length (c # cs)" "m_start m = i + Suc n"
      "matches ic r (drop (Suc n) (c # cs)) = (group0 m, m_groups m, rest) # ms"
      by simp_all
    then show ?thesis
      by blast
  next
    case (Cons x xs)
    with Cons.prems have m: "m = \<lparr>m_start = i, group0 = fst x, m_groups = fst (snd x)\<rparr>"
      by (simp add: search_from.simps [of ic r i "c # cs"])
    from Cons m have "matches ic r (drop 0 (c # cs)) = (group0 m, m_groups m, snd (snd x)) # xs"
      by simp
    then have "\<exists>rest ms. matches ic r (drop 0 (c # cs)) = (group0 m, m_groups m, rest) # ms"
      by blast
    with m show ?thesis
      by (intro exI [of _ 0]) simp
  qed
qed

lemma re_search_head:
  assumes "re_search ic r s = Some m"
  shows "\<exists>rest ms. matches ic r (drop (m_start m) s) = (group0 m, m_groups m, rest) # ms"
proof -
  from assms have "search_from ic r 0 s = Some m"
    by (simp add: re_search_def)
  from search_from_head [OF this] show ?thesis
    by auto
qed

lemma re_search_None_iff: "re_search ic r s = None \<longleftrightarrow> \<not> occurs ic r s"
  by (simp add: re_search_def search_from_None occurs_def matches_at_def)

lemma occurs_iff: "occurs ic r s \<longleftrightarrow> (\<exists>pre w post. s = pre @ w @ post \<and> w \<in> lang ic r)"
proof
  assume "occurs ic r s"
  then obtain n w where n: "n \<le> length s" "w \<in> lang ic r" "prefix w (drop n s)"
    by (auto simp add: occurs_def matches_at_def)
  then obtain post where "drop n s = w @ post"
    by (auto simp add: prefix_def)
  then have "s = take n s @ w @ post"
    by (metis append_take_drop_id)
  with n(2) show "\<exists>pre w post. s = pre @ w @ post \<and> w \<in> lang ic r"
    by blast
next
  assume "\<exists>pre w post. s = pre @ w @ post \<and> w \<in> lang ic r"
  then obtain pre w post where s: "s = pre @ w @ post" and w: "w \<in> lang ic r"
    by blast
  from s have "prefix w (drop (length pre) s)"
    by simp
  with w s have "matches_at ic r s (length pre)"
    unfolding matches_at_def by (intro conjI bexI [of _ w]) simp_all
  then show "occurs ic r s"
    by (auto simp add: occurs_def)
qed

section \<open>The languages of the scraper's patterns\<close>

lemma lang_seqs_Nil: "lang ic (seqs []) = {[]}"
  by (simp add: seqs_def)

lemma lang_seqs_Cons:
  "lang ic (seqs (r # rs)) = {u @ v | u v. u \<in> lang ic r \<and> v \<in> lang ic (seqs rs)}"
  by (simp add: seqs_def)

lemma lang_lit_exact: "lang False (lit s) = {s}"
proof (induction s)
  case Nil
  show ?case by (simp add: lit_def)
next
  case (Cons c s)
  have "lit (c # s) = Seq (Atom (Chr c)) (lit s)"
    by (simp add: lit_def)
  with Cons show ?case
    by auto
qed

lemma lang_lit_ignorecase: "lang True (lit s) = {w. py_lower w = py_lower s}"
proof (induction s)
  case Nil
  show ?case by (simp add: lit_def py_lower_def)
next
  case (Cons c s)
  have l: "lit (c # s) = Seq (Atom (Chr c)) (lit s)"
    by (simp add: lit_def)
  show ?case
  proof (intro set_eqI iffI)
    fix w
    assume "w \<in> lang True (lit (c # s))"
    with l Cons obtain c' v where "w = c' # v" "lower_char c' = lower_char c" "py_lower v = py_lower s"
      by auto
    then show "w \<in> {w. py_lower w = py_lower (c # s)}"
      by (simp add: py_lower_def)
  next
    fix w
    assume "w \<in> {w. py_lower w = py_lower (c # s)}"
    then obtain c' v where "w = c' # v" "lower_char c' = lower_char c" "py_lower v = py_lower s"
      by (auto simp add: py_lower_def map_eq_Cons_conv)
    with Cons have "w = [c'] @ v" "[c'] \<in> lang True (Atom (Chr c))" "v \<in> lang True (lit s)"
      by simp_all
    then show "w \<in> lang True (lit (c # s))"
      unfolding l lang.simps by blast
  qed
qed

lemma lang_digits: "lang ic (Plus Digit) = {w. is_numeral w}"
  by (simp add: is_numeral_def)

lemma lower_char_dot: "lower_char c = CHR ''.'' \<longleftrightarrow> c = CHR ''.''"
proof
  assume a: "lower_char c = CHR ''.''"
  show "c = CHR ''.''"
  proof (rule ccontr)
    assume n: "c \<noteq> CHR ''.''"
    with a have u: "(65 \<le> (of_char c :: nat) \<and> (of_char c :: nat) \<le> 90)
        \<or> (192 \<le> (of_char c :: nat) \<and> (of_char c :: nat) \<le> 222 \<and> (of_char c :: nat) \<noteq> 215)"
      and e: "char_of ((of_char c :: nat) + 32) = CHR ''.''"
      by (auto simp add: lower_char_def Let_def split: if_splits)
    from e have "(of_char (char_of ((of_char c :: nat) + 32)) :: nat) = of_char CHR ''.''"
      by simp
    then have "((of_char c :: nat) + 32) mod 256 = 46"
      by simp
    with u show False
      by auto
  qed
next
  assume "c = CHR ''.''"
  then show "lower_char c = CHR ''.''"
    by (simp add: lower_char_def)
qed

lemma lang_dot_digits: "lang ic dot_digits = {''.'' @ d | d. is_numeral d}"
proof -
  have d: "lower_char CHR ''.'' = CHR ''.''"
    by (simp add: lower_char_def)
  have "atom_ok ic (Chr CHR ''.'') c \<longleftrightarrow> c = CHR ''.''" for c
    by (cases ic) (simp_all add: d lower_char_dot)
  then show ?thesis
    by (auto simp add: dot_digits_def lang_seqs_Cons lang_seqs_Nil is_numeral_def)
qed

lemma length_2_3:
  "2 \<le> length cs \<and> length cs \<le> 3 \<longleftrightarrow> (\<exists>a b. cs = [a, b]) \<or> (\<exists>a b c. cs = [a, b, c])"
proof -
  have "2 \<le> length cs \<and> length cs \<le> 3 \<longleftrightarrow> length cs = Suc (Suc 0) \<or> length cs = Suc (Suc (Suc 0))"
    by auto
  then show ?thesis
    by (auto simp add: length_Suc_conv)
qed

lemma length_2_4:
  "2 \<le> length cs \<and> length cs \<le> 4 \<longleftrightarrow>
     (\<exists>a b. cs = [a, b]) \<or> (\<exists>a b c. cs = [a, b, c]) \<or> (\<exists>a b c d. cs = [a, b, c, d])"
proof -
  have "2 \<le> length cs \<and> length cs \<le> 4 \<longleftrightarrow>
      length cs = Suc (Suc 0) \<or> length cs = Suc (Suc (Suc 0)) \<or> length cs = Suc (Suc (Suc (Suc 0)))"
    by auto
  then show ?thesis
    by (auto simp add: length_Suc_conv)
qed

lemma in_versions_2_3:
  "v \<in> versions 2 3 \<longleftrightarrow>
     (\<exists>a b. is_numeral a \<and> is_numeral b \<and>
        (v = a @ ''.'' @ b \<or> (\<exists>c. is_numeral c \<and> v = a @ ''.'' @ b @ ''.'' @ c)))"
proof
  assume "v \<in> versions 2 3"
  then obtain cs where cs: "v = dotted cs" "2 \<le> length cs \<and> length cs \<le> 3" "\<forall>c \<in> set cs. is_numeral c"
    by (auto simp add: versions_def)
  from cs(2) have "(\<exists>a b. cs = [a, b]) \<or> (\<exists>a b c. cs = [a, b, c])"
    by (simp only: length_2_3)
  with cs(1,3) show "\<exists>a b. is_numeral a \<and> is_numeral b \<and>
        (v = a @ ''.'' @ b \<or> (\<exists>c. is_numeral c \<and> v = a @ ''.'' @ b @ ''.'' @ c))"
    by auto blast+
next
  assume "\<exists>a b. is_numeral a \<and> is_numeral b \<and>
        (v = a @ ''.'' @ b \<or> (\<exists>c. is_numeral c \<and> v = a @ ''.'' @ b @ ''.'' @ c))"
  then obtain a b where ab: "is_numeral a" "is_numeral b"
    and v: "v = a @ ''.'' @ b \<or> (\<exists>c. is_numeral c \<and> v = a @ ''.'' @ b @ ''.'' @ c)"
    by blast
  from v show "v \<in> versions 2 3"
  proof
    assume "v = a @ ''.'' @ b"
    with ab have "v = dotted [a, b] \<and> 2 \<le> length [a, b] \<and> length [a, b] \<le> 3
        \<and> (\<forall>c \<in> set [a, b]. is_numeral c)"
      by simp
    then show ?thesis
      unfolding versions_def by blast
  next
    assume "\<exists>c. is_numeral c \<and> v = a @ ''.'' @ b @ ''.'' @ c"
    then obtain c where "is_numeral c" "v = a @ ''.'' @ b @ ''.'' @ c"
      by blast
    with ab have "v = dotted [a, b, c] \<and> 2 \<le> length [a, b, c] \<and> length [a, b, c] \<le> 3
        \<and> (\<forall>x \<in> set [a, b, c]. is_numeral x)"
      by simp
    then show ?thesis
      unfolding versions_def by blast
  qed
qed

lemma in_versions_2_4:
  "v \<in> versions 2 4 \<longleftrightarrow>
     (\<exists>a b. is_numeral a \<and> is_numeral b \<and>
        (v = a @ ''.'' @ b
         \<or> (\<exists>c. is_numeral c \<and>
               (v = a @ ''.'' @ b @ ''.'' @ c
                \<or> (\<exists>d. is_numeral d \<and> v = a @ ''.'' @ b @ ''.'' @ c @ ''.'' @ d)))))"
proof
  assume "v \<in> versions 2 4"
  then obtain cs where cs: "v = dotted cs" "2 \<le> length cs \<and> length cs \<le> 4" "\<forall>c \<in> set cs. is_numeral c"
    by (auto simp add: versions_def)
  from cs(2) have "(\<exists>a b. cs = [a, b]) \<or> (\<exists>a b c. cs = [a, b, c]) \<or> (\<exists>a b c d. cs = [a, b, c, d])"
    by (simp only: length_2_4)
  with cs(1,3) show "\<exists>a b. is_numeral a \<and> is_numeral b \<and>
        (v = a @ ''.'' @ b
         \<or> (\<exists>c. is_numeral c \<and>
               (v = a @ ''.'' @ b @ ''.'' @ c
                \<or> (\<exists>d. is_numeral d \<and> v = a @ ''.'' @ b @ ''.'' @ c @ ''.'' @ d))))"
    by auto blast+
next
  assume "\<exists>a b. is_numeral a \<and> is_numeral b \<and>
        (v = a @ ''.'' @ b
         \<or> (\<exists>c. is_numeral c \<and>
               (v = a @ ''.'' @ b @ ''.'' @ c
                \<or> (\<exists>d. is_numeral d \<and> v = a @ ''.'' @ b @ ''.'' @ c @ ''.'' @ d))))"
  then obtain a b where ab: "is_numeral a" "is_numeral b"
    and v: "v = a @ ''.'' @ b
         \<or> (\<exists>c. is_numeral c \<and>
               (v = a @ ''.'' @ b @ ''.'' @ c
                \<or> (\<exists>d. is_numeral d \<and> v = a @ ''.'' @ b @ ''.'' @ c @ ''.'' @ d)))"
    by blast
  from v consider "v = a @ ''.'' @ b"
    | c where "is_numeral c" "v = a @ ''.'' @ b @ ''.'' @ c"
    | c d where "is_numeral c" "is_numeral d" "v = a @ ''.'' @ b @ ''.'' @ c @ ''.'' @ d"
    by blast
  then show "v \<in> versions 2 4"
  proof cases
    case 1
    with ab have "v = dotted [a, b] \<and> 2 \<le> length [a, b] \<and> length [a, b] \<le> 4
        \<and> (\<forall>c \<in> set [a, b]. is_numeral c)"
      by simp
    then show ?thesis
      unfolding versions_def by blast
  next
    case 2
    with ab have "v = dotted [a, b, c] \<and> 2 \<le> length [a, b, c] \<and> length [a, b, c] \<le> 4
        \<and> (\<forall>x \<in> set [a, b, c]. is_numeral x)"
      by simp
    then show ?thesis
      unfolding versions_def by blast
  next
    case 3
    with ab have "v = dotted [a, b, c, d] \<and> 2 \<le> length [a, b, c, d] \<and> length [a, b, c, d] \<le> 4
        \<and> (\<forall>x \<in> set [a, b, c, d]. is_numeral x)"
      by simp
    then show ?thesis
      unfolding versions_def by blast
  qed
qed

lemma in_lang_seqs2:
  "v \<in> lang ic (seqs [r1, r2]) \<longleftrightarrow>
     (\<exists>a b. v = a @ b \<and> a \<in> lang ic r1 \<and> b \<in> lang ic r2)"
  by (auto simp add: seqs_def)

lemma in_lang_seqs3:
  "v \<in> lang ic (seqs [r1, r2, r3]) \<longleftrightarrow>
     (\<exists>a b c. v = a @ b @ c \<and> a \<in> lang ic r1 \<and> b \<in> lang ic r2 \<and> c \<in> lang ic r3)"
  by (auto simp add: seqs_def)

lemma in_lang_seqs4:
  "v \<in> lang ic (seqs [r1, r2, r3, r4]) \<longleftrightarrow>
     (\<exists>a b c d. v = a @ b @ c @ d \<and> a \<in> lang ic r1 \<and> b \<in> lang ic r2 \<and> c \<in> lang ic r3
        \<and> d \<in> lang ic r4)"
  by (auto simp add: seqs_def) blast+

lemma in_lang_seqs5:
  "v \<in> lang ic (seqs [r1, r2, r3, r4, r5]) \<longleftrightarrow>
     (\<exists>a b c d e. v = a @ b @ c @ d @ e \<and> a \<in> lang ic r1 \<and> b \<in> lang ic r2
        \<and> c \<in> lang ic r3 \<and> d \<in> lang ic r4 \<and> e \<in> lang ic r5)"
  by (auto simp add: seqs_def) blast+

lemma in_lang_opt_dot_digits:
  "c \<in> lang ic (Opt (Group i dot_digits)) \<longleftrightarrow> c = [] \<or> (\<exists>d. is_numeral d \<and> c = ''.'' @ d)"
  by (auto simp add: lang_dot_digits)

lemma in_lang_dot_digits:
  "c \<in> lang ic dot_digits \<longleftrightarrow> (\<exists>d. is_numeral d \<and> c = ''.'' @ d)"
  by (auto simp add: lang_dot_digits)

lemma in_lang_digits: "c \<in> lang ic (Plus Digit) \<longleftrightarrow> is_numeral c"
  by (simp add: is_numeral_def)

lemma in_lang_version_2_3:
  "v \<in> lang ic (seqs [Plus Digit, dot_digits, Opt (Group i dot_digits)]) \<longleftrightarrow>
     (\<exists>a b. is_numeral a \<and> is_numeral b \<and>
        (v = a @ ''.'' @ b \<or> (\<exists>c. is_numeral c \<and> v = a @ ''.'' @ b @ ''.'' @ c)))"
proof
  assume "v \<in> lang ic (seqs [Plus Digit, dot_digits, Opt (Group i dot_digits)])"
  then obtain a x y where v: "v = a @ x @ y" and a: "is_numeral a"
    and x: "\<exists>d. is_numeral d \<and> x = ''.'' @ d"
    and y: "y = [] \<or> (\<exists>d. is_numeral d \<and> y = ''.'' @ d)"
    unfolding in_lang_seqs3 in_lang_opt_dot_digits in_lang_dot_digits in_lang_digits by blast
  from x obtain b where b: "is_numeral b" "x = ''.'' @ b"
    by blast
  from y show "\<exists>a b. is_numeral a \<and> is_numeral b \<and>
        (v = a @ ''.'' @ b \<or> (\<exists>c. is_numeral c \<and> v = a @ ''.'' @ b @ ''.'' @ c))"
  proof
    assume "y = []"
    with v b have "v = a @ ''.'' @ b"
      by simp
    with a b show ?thesis
      by blast
  next
    assume "\<exists>d. is_numeral d \<and> y = ''.'' @ d"
    then obtain c where c: "is_numeral c" "y = ''.'' @ c"
      by blast
    with v b have "v = a @ ''.'' @ b @ ''.'' @ c"
      by simp
    with a b c show ?thesis
      by blast
  qed
next
  assume "\<exists>a b. is_numeral a \<and> is_numeral b \<and>
        (v = a @ ''.'' @ b \<or> (\<exists>c. is_numeral c \<and> v = a @ ''.'' @ b @ ''.'' @ c))"
  then obtain a b where a: "is_numeral a" and b: "is_numeral b"
    and v: "v = a @ ''.'' @ b \<or> (\<exists>c. is_numeral c \<and> v = a @ ''.'' @ b @ ''.'' @ c)"
    by blast
  from v show "v \<in> lang ic (seqs [Plus Digit, dot_digits, Opt (Group i dot_digits)])"
  proof
    assume "v = a @ ''.'' @ b"
    then have "v = a @ (''.'' @ b) @ []"
      by simp
    with a b show ?thesis
      unfolding in_lang_seqs3 in_lang_opt_dot_digits in_lang_dot_digits in_lang_digits by blast
  next
    assume "\<exists>c. is_numeral c \<and> v = a @ ''.'' @ b @ ''.'' @ c"
    then obtain c where c: "is_numeral c" "v = a @ ''.'' @ b @ ''.'' @ c"
      by blast
    then have "v = a @ (''.'' @ b) @ (''.'' @ c)"
      by simp
    with a b c show ?thesis
      unfolding in_lang_seqs3 in_lang_opt_dot_digits in_lang_dot_digits in_lang_digits by blast
  qed
qed

lemma lang_version_2_3:
  "lang ic (seqs [Plus Digit, dot_digits, Opt (Group i dot_digits)]) = versions 2 3"
  by (intro set_eqI) (simp only: in_lang_version_2_3 in_versions_2_3)

lemma in_lang_version_2_4:
  "v \<in> lang ic (seqs [Plus Digit, dot_digits, Opt (Group i dot_digits), Opt (Group j dot_digits)])
   \<longleftrightarrow>
     (\<exists>a b. is_numeral a \<and> is_numeral b \<and>
        (v = a @ ''.'' @ b
         \<or> (\<exists>c. is_numeral c \<and>
               (v = a @ ''.'' @ b @ ''.'' @ c
                \<or> (\<exists>d. is_numeral d \<and> v = a @ ''.'' @ b @ ''.'' @ c @ ''.'' @ d)))))"
proof
  assume "v \<in> lang ic (seqs [Plus Digit, dot_digits, Opt (Group i dot_digits), Opt (Group j dot_digits)])"
  then obtain a x y z where v: "v = a @ x @ y @ z" and a: "is_numeral a"
    and x: "\<exists>d. is_numeral d \<and> x = ''.'' @ d"
    and y: "y = [] \<or> (\<exists>d. is_numeral d \<and> y = ''.'' @ d)"
    and z: "z = [] \<or> (\<exists>d. is_numeral d \<and> z = ''.'' @ d)"
    unfolding in_lang_seqs4 in_lang_opt_dot_digits in_lang_dot_digits in_lang_digits by blast
  from x obtain b where b: "is_numeral b" "x = ''.'' @ b"
    by blast
  from y z consider "y = []" "z = []"
    | c where "is_numeral c" "y = ''.'' @ c" "z = []"
    | c where "is_numeral c" "y = []" "z = ''.'' @ c"
    | c d where "is_numeral c" "is_numeral d" "y = ''.'' @ c" "z = ''.'' @ d"
    by blast
  then show "\<exists>a b. is_numeral a \<and> is_numeral b \<and>
        (v = a @ ''.'' @ b
         \<or> (\<exists>c. is_numeral c \<and>
               (v = a @ ''.'' @ b @ ''.'' @ c
                \<or> (\<exists>d. is_numeral d \<and> v = a @ ''.'' @ b @ ''.'' @ c @ ''.'' @ d))))"
  proof cases
    case 1
    with v b have "v = a @ ''.'' @ b"
      by simp
    with a b show ?thesis
      by blast
  next
    case 2
    with v b have "v = a @ ''.'' @ b @ ''.'' @ c"
      by simp
    with a b 2 show ?thesis
      by blast
  next
    case 3
    with v b have "v = a @ ''.'' @ b @ ''.'' @ c"
      by simp
    with a b 3 show ?thesis
      by blast
  next
    case 4
    with v b have "v = a @ ''.'' @ b @ ''.'' @ c @ ''.'' @ d"
      by simp
    with a b 4 show ?thesis
      by blast
  qed
next
  assume "\<exists>a b. is_numeral a \<and> is_numeral b \<and>
        (v = a @ ''.'' @ b
         \<or> (\<exists>c. is_numeral c \<and>
               (v = a @ ''.'' @ b @ ''.'' @ c
                \<or> (\<exists>d. is_numeral d \<and> v = a @ ''.'' @ b @ ''.'' @ c @ ''.'' @ d))))"
  then obtain a b where a: "is_numeral a" and b: "is_numeral b"
    and v: "v = a @ ''.'' @ b
         \<or> (\<exists>c. is_numeral c \<and>
               (v = a @ ''.'' @ b @ ''.'' @ c
                \<or> (\<exists>d. is_numeral d \<and> v = a @ ''.'' @ b @ ''.'' @ c @ ''.'' @ d)))"
    by blast
  from v consider "v = a @ ''.'' @ b"
    | c where "is_numeral c" "v = a @ ''.'' @ b @ ''.'' @ c"
    | c d where "is_numeral c" "is_numeral d" "v = a @ ''.'' @ b @ ''.'' @ c @ ''.'' @ d"
    by blast
  then show "v \<in> lang ic (seqs [Plus Digit, dot_digits, Opt (Group i dot_digits), Opt (Group j dot_digits)])"
  proof cases
    case 1
    then have "v = a @ (''.'' @ b) @ [] @ []"
      by simp
    with a b show ?thesis
      unfolding in_lang_seqs4 in_lang_opt_dot_digits in_lang_dot_digits in_lang_digits by blast
  next
    case 2
    then have "v = a @ (''.'' @ b) @ (''.'' @ c) @ []"
      by simp
    with a b 2 show ?thesis
      unfolding in_lang_seqs4 in_lang_opt_dot_digits in_lang_dot_digits in_lang_digits by blast
  next
    case 3
    then have "v = a @ (''.'' @ b) @ (''.'' @ c) @ (''.'' @ d)"
      by simp
    with a b 3 show ?thesis
      unfolding in_lang_seqs4 in_lang_opt_dot_digits in_lang_dot_digits in_lang_digits by blast
  qed
qed

lemma lang_version_2_4:
  "lang ic (seqs [Plus Digit, dot_digits, Opt (Group i dot_digits), Opt (Group j dot_digits)]) =
     versions 2 4"
  by (intro set_eqI) (simp only: in_lang_version_2_4 in_versions_2_4)

lemma py_lower_literals:
  "py_lower ''version '' = ''version ''"
  "py_lower ''apache/'' = ''apache/''"
  "py_lower ''powered by '' = ''powered by ''"
  "py_lower ''wordpress'' = ''wordpress''"
  "py_lower ''joomla'' = ''joomla''"
  "py_lower ''drupal'' = ''drupal''"
  "py_lower ''magento'' = ''magento''"
  "py_lower '' '' = '' ''"
  "py_lower ''Index of /'' = ''index of /''"
  by code_simp+

lemma in_lang_version_pattern:
  "w \<in> lang True version_pattern \<longleftrightarrow>
     (\<exists>k v. w = k @ v \<and> py_lower k = ''version '' \<and> v \<in> versions 2 4)"
  unfolding version_pattern_def in_lang_seqs2 lang.simps(7) lang_version_2_4
    lang_lit_ignorecase py_lower_literals
  by blast

lemma in_lang_apache_pattern:
  "w \<in> lang True apache_pattern \<longleftrightarrow>
     (\<exists>k v. w = k @ v \<and> py_lower k = ''apache/'' \<and> v \<in> versions 2 3)"
  unfolding apache_pattern_def in_lang_seqs2 lang.simps(7) lang_version_2_3
    lang_lit_ignorecase py_lower_literals
  by blast

lemma in_lang_ver_pattern:
  "w \<in> lang False ver_pattern \<longleftrightarrow> (\<exists>v. w = ''ver='' @ v \<and> v \<in> versions 2 3)"
  unfolding ver_pattern_def in_lang_seqs2 lang.simps(7) lang_version_2_3 lang_lit_exact
  by blast

lemma in_lang_optional_v:
  "w \<in> lang True (Opt (Atom (Chr CHR ''v''))) \<longleftrightarrow> w = [] \<or> py_lower w = ''v''"
proof -
  have "lower_char CHR ''v'' = CHR ''v''"
    by code_simp
  then show ?thesis
    by (auto simp add: py_lower_def)
qed

lemma in_lang_product_names:
  "w \<in> lang True (Alt (lit ''wordpress'') (Alt (lit ''joomla'') (Alt (lit ''drupal'') (lit ''magento''))))
   \<longleftrightarrow> py_lower w \<in> {''wordpress'', ''joomla'', ''drupal'', ''magento''}"
  unfolding lang.simps(5) lang_lit_ignorecase py_lower_literals
  by blast

lemma in_lang_powered_by_pattern:
  "w \<in> lang True powered_by_pattern \<longleftrightarrow>
     (\<exists>k n sp letter v. w = k @ n @ sp @ letter @ v \<and> py_lower k = ''powered by ''
        \<and> py_lower n \<in> {''wordpress'', ''joomla'', ''drupal'', ''magento''}
        \<and> py_lower sp = '' '' \<and> (letter = [] \<or> py_lower letter = ''v'') \<and> v \<in> versions 2 4)"
  unfolding powered_by_pattern_def in_lang_seqs5 lang.simps(7) lang_version_2_4
    in_lang_optional_v in_lang_product_names lang_lit_ignorecase py_lower_literals
  by blast

section \<open>The findings, part by part\<close>

lemma footer_findings_append:
  "footer_findings patterns t fs =
     fs @ concat (map (\<lambda>p. text_finding p t) patterns)"
proof (induction patterns arbitrary: fs)
  case Nil
  show ?case by simp
next
  case (Cons p ps)
  show ?case
    by (simp add: Cons.IH text_finding_def split: option.splits)
qed

lemma resource_findings_append:
  "resource_findings links fs =
     fs @ concat (map resource_finding links)"
proof (induction links arbitrary: fs)
  case Nil
  show ?case by simp
next
  case (Cons l ls)
  show ?case
    by (simp add: Cons.IH resource_finding_def split: option.splits)
qed

lemma check_outdated_software_parts:
  "check_outdated_software soup =
     meta_findings soup []
     @ text_finding powered_by_pattern (get_text soup)
     @ text_finding version_pattern (get_text soup)
     @ text_finding apache_pattern (get_text soup)
     @ concat (map resource_finding (find_all [''script'', ''link''] soup))"
  unfolding check_outdated_software_def resource_findings_append footer_findings_append
    footer_text_patterns_def
  by simp

lemma text_finding_cases:
  "text_finding p t =
     (case re_search True p t of
        None \<Rightarrow> []
      | Some m \<Rightarrow> [''Potential software version found in text: '' @ group0 m])"
  by (simp add: text_finding_def split: option.splits)

lemma text_finding_match:
  "if occurs True p t
   then \<exists>m. re_search True p t = Some m
          \<and> first_match True p t (m_start m) (group0 m)
          \<and> (\<exists>rest ms. matches True p (drop (m_start m) t) = (group0 m, m_groups m, rest) # ms)
          \<and> text_finding p t = [''Potential software version found in text: '' @ group0 m]
   else re_search True p t = None \<and> text_finding p t = []"
proof (cases "re_search True p t")
  case None
  then show ?thesis
    by (simp add: text_finding_cases re_search_None_iff [symmetric])
next
  case (Some m)
  then have o: "occurs True p t"
    using re_search_None_iff [of True p t] by simp
  from re_search_Some [OF Some]
  have "first_match True p t (m_start m) (group0 m)"
    by (simp add: first_match_def matches_at_def)
  moreover note re_search_head [OF Some]
  moreover from Some
  have "text_finding p t = [''Potential software version found in text: '' @ group0 m]"
    by (simp add: text_finding_cases)
  ultimately have "re_search True p t = Some m
          \<and> first_match True p t (m_start m) (group0 m)
          \<and> (\<exists>rest ms. matches True p (drop (m_start m) t) = (group0 m, m_groups m, rest) # ms)
          \<and> text_finding p t = [''Potential software version found in text: '' @ group0 m]"
    using Some by (intro conjI)
  then have "\<exists>m. re_search True p t = Some m
          \<and> first_match True p t (m_start m) (group0 m)
          \<and> (\<exists>rest ms. matches True p (drop (m_start m) t) = (group0 m, m_groups m, rest) # ms)
          \<and> text_finding p t = [''Potential software version found in text: '' @ group0 m]"
    by (rule exI)
  with o show ?thesis
    by (simp only: if_True)
qed

section \<open>Versions in the page text\<close>

text \<open>
  C5, as the code has it. The findings are those of the generator tag, then those of the
  three text patterns in the order of the list, then those of the resources. Each text
  pattern is searched in the whole text of the page with letter case ignored. When it
  occurs, \<open>re.search\<close> returns a match, and the pattern adds exactly one finding: the
  fixed prefix followed by \<open>group(0)\<close> of that match, which is the first result of the
  backtracking matcher at the first position where the pattern matches. When it does
  not occur, the search returns nothing and the pattern adds no finding. What the
  patterns match: \<open>powered by\<close>, one of the four product names, a space, an optional
  \<open>v\<close> and a version of two to four numerals; \<open>version\<close>, a space and a version of
  two to four numerals; \<open>apache/\<close> and a version of two or three numerals. A single
  numeral is not a version for any of them.
\<close>

theorem footer_text_findings:
  "check_outdated_software soup =
     meta_findings soup []
     @ text_finding powered_by_pattern (get_text soup)
     @ text_finding version_pattern (get_text soup)
     @ text_finding apache_pattern (get_text soup)
     @ concat (map resource_finding (find_all [''script'', ''link''] soup))
   \<and> footer_text_patterns = [powered_by_pattern, version_pattern, apache_pattern]
   \<and> (occurs True p t \<longrightarrow>
        (\<exists>m. re_search True p t = Some m
           \<and> first_match True p t (m_start m) (group0 m)
           \<and> (\<exists>rest ms. matches True p (drop (m_start m) t) = (group0 m, m_groups m, rest) # ms)
           \<and> text_finding p t = [''Potential software version found in text: '' @ group0 m]))
   \<and> (\<not> occurs True p t \<longrightarrow> re_search True p t = None \<and> text_finding p t = [])
   \<and> (w \<in> lang True powered_by_pattern \<longleftrightarrow>
        (\<exists>k n sp letter v. w = k @ n @ sp @ letter @ v \<and> py_lower k = ''powered by ''
           \<and> py_lower n \<in> {''wordpress'', ''joomla'', ''drupal'', ''magento''}
           \<and> py_lower sp = '' '' \<and> (letter = [] \<or> py_lower letter = ''v'')
           \<and> v \<in> versions 2 4))
   \<and> (w \<in> lang True version_pattern \<longleftrightarrow>
        (\<exists>k v. w = k @ v \<and> py_lower k = ''version '' \<and> v \<in> versions 2 4))
   \<and> (w \<in> lang True apache_pattern \<longleftrightarrow>
        (\<exists>k v. w = k @ v \<and> py_lower k = ''apache/'' \<and> v \<in> versions 2 3))"
proof -
  have a: "occurs True p t \<longrightarrow>
        (\<exists>m. re_search True p t = Some m
           \<and> first_match True p t (m_start m) (group0 m)
           \<and> (\<exists>rest ms. matches True p (drop (m_start m) t) = (group0 m, m_groups m, rest) # ms)
           \<and> text_finding p t = [''Potential software version found in text: '' @ group0 m])"
    using text_finding_match [of p t] by (cases "occurs True p t") (simp_all only: if_True simp_thms)
  have b: "\<not> occurs True p t \<longrightarrow> re_search True p t = None \<and> text_finding p t = []"
    using text_finding_match [of p t] by (cases "occurs True p t") (simp_all only: if_False simp_thms)
  show ?thesis
    by (intro conjI check_outdated_software_parts footer_text_patterns_def a b
          in_lang_powered_by_pattern in_lang_version_pattern in_lang_apache_pattern)
qed

lemma footer_soup_text:
  "get_text footer_soup = ''Powered by WordPress 5.8 on Apache/2.4.41.7 (Ubuntu), version 1.2.3.4.5''"
  by (simp add: get_text_def descendants_def footer_soup_def)

lemma footer_soup_findings:
  "check_outdated_software footer_soup =
     [''Potential software version found in text: Powered by WordPress 5.8'',
      ''Potential software version found in text: version 1.2.3.4'',
      ''Potential software version found in text: Apache/2.4.41'']"
  by code_simp

theorem footer_text_findings_witness:
  "occurs True apache_pattern (get_text footer_soup)
   \<and> re_search True apache_pattern (get_text footer_soup) =
       Some \<lparr>m_start = 28, group0 = ''Apache/2.4.41'', m_groups = [(2, ''.41''), (1, ''2.4.41'')]\<rparr>
   \<and> first_match True apache_pattern (get_text footer_soup) 28 ''Apache/2.4.41''
   \<and> text_finding apache_pattern (get_text footer_soup) =
       [''Potential software version found in text: Apache/2.4.41'']
   \<and> \<not> occurs True apache_pattern ''Apache 2''
   \<and> text_finding apache_pattern ''Apache 2'' = []
   \<and> check_outdated_software footer_soup =
       [''Potential software version found in text: Powered by WordPress 5.8'',
        ''Potential software version found in text: version 1.2.3.4'',
        ''Potential software version found in text: Apache/2.4.41'']"
proof -
  have s: "re_search True apache_pattern (get_text footer_soup) =
      Some \<lparr>m_start = 28, group0 = ''Apache/2.4.41'', m_groups = [(2, ''.41''), (1, ''2.4.41'')]\<rparr>"
    unfolding footer_soup_text by code_simp
  then have o: "occurs True apache_pattern (get_text footer_soup)"
    using re_search_None_iff [of True apache_pattern "get_text footer_soup"] by simp
  have "re_search True apache_pattern ''Apache 2'' = None"
    by code_simp
  then have n: "\<not> occurs True apache_pattern ''Apache 2''"
    by (simp add: re_search_None_iff)
  from footer_text_findings [of footer_soup apache_pattern "get_text footer_soup" "[]"]
  have "occurs True apache_pattern (get_text footer_soup) \<longrightarrow>
        (\<exists>m. re_search True apache_pattern (get_text footer_soup) = Some m
           \<and> first_match True apache_pattern (get_text footer_soup) (m_start m) (group0 m)
           \<and> (\<exists>rest ms. matches True apache_pattern (drop (m_start m) (get_text footer_soup)) =
                 (group0 m, m_groups m, rest) # ms)
           \<and> text_finding apache_pattern (get_text footer_soup) =
               [''Potential software version found in text: '' @ group0 m])"
    by (elim conjE)
  with o obtain m where m: "re_search True apache_pattern (get_text footer_soup) = Some m"
    "first_match True apache_pattern (get_text footer_soup) (m_start m) (group0 m)"
    "text_finding apache_pattern (get_text footer_soup) =
       [''Potential software version found in text: '' @ group0 m]"
    by (elim impE exE conjE)
  from m(1) s have e: "m = \<lparr>m_start = 28, group0 = ''Apache/2.4.41'',
      m_groups = [(2, ''.41''), (1, ''2.4.41'')]\<rparr>"
    by simp
  from m(2) have f: "first_match True apache_pattern (get_text footer_soup) 28 ''Apache/2.4.41''"
    unfolding e by simp
  from m(3) have g: "text_finding apache_pattern (get_text footer_soup) =
       [''Potential software version found in text: Apache/2.4.41'']"
    unfolding e by simp
  from footer_text_findings [of footer_soup apache_pattern "''Apache 2''" "[]"]
  have "\<not> occurs True apache_pattern ''Apache 2'' \<longrightarrow>
      re_search True apache_pattern ''Apache 2'' = None \<and> text_finding apache_pattern ''Apache 2'' = []"
    by (elim conjE)
  with n have h: "text_finding apache_pattern ''Apache 2'' = []"
    by (elim impE conjE)
  show ?thesis
    by (intro conjI o s f g n h footer_soup_findings)
qed

text \<open>
  The claim gives the version one to four numerals for all three patterns. A version
  of one numeral is found by none of them, and of a server token with four numerals
  the third pattern keeps three.
\<close>

theorem footer_text_findings_counterexample:
  "is_numeral ''5'' \<and> dotted [''5''] = ''5''
   \<and> check_outdated_software [NavigableString ''Powered by WordPress 5, version 5, Apache/5''] = []
   \<and> check_outdated_software [NavigableString ''Apache/2.4.41.7''] =
       [''Potential software version found in text: Apache/2.4.41'']"
proof -
  have "is_numeral ''5''"
    by (simp add: is_numeral_def py_isdigit_def)
  moreover have "check_outdated_software [NavigableString ''Powered by WordPress 5, version 5, Apache/5''] = []"
    by code_simp
  moreover have "check_outdated_software [NavigableString ''Apache/2.4.41.7''] =
       [''Potential software version found in text: Apache/2.4.41'']"
    by code_simp
  ultimately show ?thesis
    by simp
qed

section \<open>What the groups capture\<close>

lemma matches_groups:
  "(w, g, rest) \<in> set (matches ic r s) \<Longrightarrow> fst ` set g \<subseteq> groups_of r"
proof (induction r arbitrary: w g rest s)
  case Eps
  then show ?case by simp
next
  case (Atom a)
  then show ?case by (auto split: list.splits if_splits)
next
  case (Plus a)
  then show ?case by auto
next
  case (Seq r1 r2)
  from Seq.prems obtain m1 m2 where m1: "m1 \<in> set (matches ic r1 s)"
    and m2: "m2 \<in> set (matches ic r2 (snd (snd m1)))"
    and g: "g = fst (snd m1) @ fst (snd m2)"
    by auto
  from Seq.IH(1) [of "fst m1" "fst (snd m1)" "snd (snd m1)" s] m1
  have "fst ` set (fst (snd m1)) \<subseteq> groups_of r1"
    by simp
  moreover from Seq.IH(2) [of "fst m2" "fst (snd m2)" "snd (snd m2)" "snd (snd m1)"] m2
  have "fst ` set (fst (snd m2)) \<subseteq> groups_of r2"
    by simp
  moreover from g have "fst ` set g = fst ` set (fst (snd m1)) \<union> fst ` set (fst (snd m2))"
    by (simp add: image_Un)
  ultimately show ?case
    by auto
next
  case (Alt r1 r2)
  from Alt.prems consider "(w, g, rest) \<in> set (matches ic r1 s)"
    | "(w, g, rest) \<in> set (matches ic r2 s)"
    by auto
  then show ?case
  proof cases
    case 1
    from Alt.IH(1) [OF 1] show ?thesis by auto
  next
    case 2
    from Alt.IH(2) [OF 2] show ?thesis by auto
  qed
next
  case (Opt r)
  from Opt.prems consider "(w, g, rest) \<in> set (matches ic r s)" | "g = []"
    by auto
  then show ?case
  proof cases
    case 1
    from Opt.IH [OF 1] show ?thesis by simp
  next
    case 2
    then show ?thesis by simp
  qed
next
  case (Group n r)
  from Group.prems obtain m where m: "m \<in> set (matches ic r s)"
    and g: "g = fst (snd m) @ [(n, fst m)]"
    by auto
  from Group.IH [of "fst m" "fst (snd m)" "snd (snd m)" s] m
  have "fst ` set (fst (snd m)) \<subseteq> groups_of r"
    by simp
  with g show ?case
    by auto
qed

lemma matches_Seq:
  assumes "(w, g, rest) \<in> set (matches ic (Seq r1 r2) s)"
  obtains w1 g1 s1 w2 g2 where "(w1, g1, s1) \<in> set (matches ic r1 s)"
    and "(w2, g2, rest) \<in> set (matches ic r2 s1)" and "w = w1 @ w2" and "g = g1 @ g2"
proof -
  from assms obtain m1 m2 where m1: "m1 \<in> set (matches ic r1 s)"
    and m2: "m2 \<in> set (matches ic r2 (snd (snd m1)))"
    and e: "w = fst m1 @ fst m2" "g = fst (snd m1) @ fst (snd m2)" "rest = snd (snd m2)"
    by auto
  from m1 have "(fst m1, fst (snd m1), snd (snd m1)) \<in> set (matches ic r1 s)"
    by simp
  moreover from m2 e(3) have "(fst m2, fst (snd m2), rest) \<in> set (matches ic r2 (snd (snd m1)))"
    by simp
  ultimately show thesis
    using e(1,2) by (rule that)
qed

lemma matches_Group:
  assumes "(w, g, rest) \<in> set (matches ic (Group n r) s)"
  obtains g' where "(w, g', rest) \<in> set (matches ic r s)" and "g = g' @ [(n, w)]"
proof -
  from assms obtain m where m: "m \<in> set (matches ic r s)"
    and e: "w = fst m" "g = fst (snd m) @ [(n, fst m)]" "rest = snd (snd m)"
    by auto
  from m e have "(w, fst (snd m), rest) \<in> set (matches ic r s)"
    by simp
  then show thesis
    using e by (intro that) simp_all
qed

lemma groups_of_lit: "groups_of (lit s) = {}"
  by (induction s) (simp_all add: lit_def)

lemma search_from_in_matches:
  "search_from ic r i s = Some m \<Longrightarrow>
     \<exists>s' rest. (group0 m, m_groups m, rest) \<in> set (matches ic r s')"
proof (induction s arbitrary: i)
  case Nil
  show ?case
  proof (cases "matches ic r []")
    case Nil
    with Nil.prems show ?thesis
      by (simp add: search_from.simps [of ic r i "[]"])
  next
    case (Cons x xs)
    with Nil.prems have m: "m = \<lparr>m_start = i, group0 = fst x, m_groups = fst (snd x)\<rparr>"
      by (simp add: search_from.simps [of ic r i "[]"])
    from Cons have "(fst x, fst (snd x), snd (snd x)) \<in> set (matches ic r [])"
      by simp
    with m show ?thesis
      by (intro exI [of _ "[]"] exI [of _ "snd (snd x)"]) simp
  qed
next
  case (Cons c cs)
  show ?case
  proof (cases "matches ic r (c # cs)")
    case Nil
    with Cons.prems have "search_from ic r (Suc i) cs = Some m"
      by (simp add: search_from.simps [of ic r i "c # cs"])
    then show ?thesis
      by (rule Cons.IH)
  next
    case (Cons x xs)
    with Cons.prems have m: "m = \<lparr>m_start = i, group0 = fst x, m_groups = fst (snd x)\<rparr>"
      by (simp add: search_from.simps [of ic r i "c # cs"])
    from Cons have "(fst x, fst (snd x), snd (snd x)) \<in> set (matches ic r (c # cs))"
      by simp
    with m show ?thesis
      by (intro exI [of _ "c # cs"] exI [of _ "snd (snd x)"]) simp
  qed
qed

lemma ver_pattern_groups:
  assumes "(w, g, rest) \<in> set (matches False ver_pattern s)"
  shows "\<exists>v. w = ''ver='' @ v \<and> map_of g 1 = Some v \<and> v \<in> versions 2 3"
proof -
  let ?R = "seqs [Plus Digit, dot_digits, Opt (Group 2 dot_digits)]"
  have p: "ver_pattern = Seq (lit ''ver='') (Seq (Group 1 ?R) Eps)"
    by (simp add: ver_pattern_def seqs_def)
  from assms [unfolded p] obtain k gk s1 x gx
    where k: "(k, gk, s1) \<in> set (matches False (lit ''ver='') s)"
      and x: "(x, gx, rest) \<in> set (matches False (Seq (Group 1 ?R) Eps) s1)"
      and e1: "w = k @ x" "g = gk @ gx"
    by (rule matches_Seq)
  from x obtain v gv s2 y gy
    where v: "(v, gv, s2) \<in> set (matches False (Group 1 ?R) s1)"
      and y: "(y, gy, rest) \<in> set (matches False Eps s2)"
      and e2: "x = v @ y" "gx = gv @ gy"
    by (rule matches_Seq)
  from v obtain g' where r: "(v, g', s2) \<in> set (matches False ?R s1)" and e3: "gv = g' @ [(1, v)]"
    by (rule matches_Group)
  from y have e4: "y = []" "gy = []"
    by simp_all
  from matches_sound [OF k] have "k = ''ver=''"
    by (simp add: lang_lit_exact)
  moreover from matches_sound [OF r] have "v \<in> versions 2 3"
    by (simp add: lang_version_2_3)
  moreover from matches_groups [OF k] have "gk = []"
    by (simp add: groups_of_lit)
  moreover from matches_groups [OF r] have "1 \<notin> fst ` set g'"
    by (auto simp add: seqs_def dot_digits_def)
  then have "map_of g' 1 = None"
    by (simp add: map_of_eq_None_iff)
  then have "map_of (g' @ [(1, v)]) 1 = Some v"
    by (simp add: map_add_def)
  ultimately show ?thesis
    using e1 e2 e3 e4 by simp
qed

lemma ver_pattern_search:
  assumes "re_search False ver_pattern src = Some m"
  shows "\<exists>v. group0 m = ''ver='' @ v \<and> group m 1 = Some v \<and> v \<in> versions 2 3"
proof -
  from assms have "search_from False ver_pattern 0 src = Some m"
    by (simp add: re_search_def)
  from search_from_in_matches [OF this] obtain s' rest
    where "(group0 m, m_groups m, rest) \<in> set (matches False ver_pattern s')"
    by blast
  from ver_pattern_groups [OF this] show ?thesis
    by (simp add: group_def)
qed

lemma resource_finding_cases:
  "resource_finding link =
     (case src_or_href link of
        None \<Rightarrow> []
      | Some src \<Rightarrow>
          (case re_search False ver_pattern src of
             None \<Rightarrow> []
           | Some m \<Rightarrow>
               if src = [] then []
               else [''Potential version parameter in resource URL: '' @ src
                     @ '' (version: '' @ str_group (group m 1) @ '')'']))"
  by (simp add: resource_finding_def split: option.splits)

lemma ver_pattern_not_in_empty: "re_search False ver_pattern [] = None"
  by code_simp

lemma resource_finding_match:
  assumes "src_or_href link = Some src"
  shows "if occurs False ver_pattern src
         then \<exists>m v. re_search False ver_pattern src = Some m
                \<and> group0 m = ''ver='' @ v \<and> group m 1 = Some v \<and> v \<in> versions 2 3
                \<and> first_match False ver_pattern src (m_start m) (group0 m)
                \<and> (\<exists>rest ms. matches False ver_pattern (drop (m_start m) src) =
                      (group0 m, m_groups m, rest) # ms)
                \<and> resource_finding link =
                    [''Potential version parameter in resource URL: '' @ src
                     @ '' (version: '' @ v @ '')'']
         else re_search False ver_pattern src = None \<and> resource_finding link = []"
proof (cases "re_search False ver_pattern src")
  case None
  with assms show ?thesis
    by (simp add: resource_finding_cases re_search_None_iff [symmetric])
next
  case (Some m)
  then have o: "occurs False ver_pattern src"
    using re_search_None_iff [of False ver_pattern src] by simp
  from Some ver_pattern_not_in_empty have n: "src \<noteq> []"
    by auto
  from ver_pattern_search [OF Some] obtain v
    where v: "group0 m = ''ver='' @ v" "group m 1 = Some v" "v \<in> versions 2 3"
    by blast
  from re_search_Some [OF Some]
  have f: "first_match False ver_pattern src (m_start m) (group0 m)"
    by (simp add: first_match_def matches_at_def)
  note h = re_search_head [OF Some]
  from assms Some n v(2)
  have r: "resource_finding link =
          [''Potential version parameter in resource URL: '' @ src @ '' (version: '' @ v @ '')'']"
    by (simp add: resource_finding_cases str_group_def)
  from Some v f h r
  have "re_search False ver_pattern src = Some m
                \<and> group0 m = ''ver='' @ v \<and> group m 1 = Some v \<and> v \<in> versions 2 3
                \<and> first_match False ver_pattern src (m_start m) (group0 m)
                \<and> (\<exists>rest ms. matches False ver_pattern (drop (m_start m) src) =
                      (group0 m, m_groups m, rest) # ms)
                \<and> resource_finding link =
                    [''Potential version parameter in resource URL: '' @ src
                     @ '' (version: '' @ v @ '')'']"
    by (intro conjI)
  then have "\<exists>m v. re_search False ver_pattern src = Some m
                \<and> group0 m = ''ver='' @ v \<and> group m 1 = Some v \<and> v \<in> versions 2 3
                \<and> first_match False ver_pattern src (m_start m) (group0 m)
                \<and> (\<exists>rest ms. matches False ver_pattern (drop (m_start m) src) =
                      (group0 m, m_groups m, rest) # ms)
                \<and> resource_finding link =
                    [''Potential version parameter in resource URL: '' @ src
                     @ '' (version: '' @ v @ '')'']"
    by (intro exI)
  with o show ?thesis
    by (simp only: if_True)
qed

section \<open>Version parameters of resources\<close>

lemma resource_finding_in_findings:
  assumes "link \<in> set (descendants soup)" and "is_tag [''script'', ''link''] link"
  shows "set (resource_finding link) \<subseteq> set (check_outdated_software soup)"
proof -
  from assms have "link \<in> set (find_all [''script'', ''link''] soup)"
    by (simp add: find_all_def)
  then have "set (resource_finding link) \<subseteq>
      set (concat (map resource_finding (find_all [''script'', ''link''] soup)))"
    by auto
  then show ?thesis
    unfolding check_outdated_software_parts by auto
qed

lemma x_js_search:
  "re_search False ver_pattern ''/wp-includes/x.js?ver=5.8.1'' =
     Some \<lparr>m_start = 18, group0 = ''ver=5.8.1'', m_groups = [(2, ''.1''), (1, ''5.8.1'')]\<rparr>"
  by code_simp

lemma x_js_finding:
  assumes "tag_get link ''src'' = Some ''/wp-includes/x.js?ver=5.8.1''"
  shows "resource_finding link =
     [''Potential version parameter in resource URL: /wp-includes/x.js?ver=5.8.1 (version: 5.8.1)'']"
proof -
  from assms have "src_or_href link = Some ''/wp-includes/x.js?ver=5.8.1''"
    by (simp add: src_or_href_def)
  then show ?thesis
    by (simp add: resource_finding_cases x_js_search group_def str_group_def)
qed

text \<open>
  C6, as the code has it. The findings end with those of the \<open>script\<close> and \<open>link\<close>
  elements, taken in document order. Of such an element one URL is looked at: its
  \<open>src\<close> when that is present and not empty, and its \<open>href\<close> otherwise; an \<open>href\<close>
  beside a non-empty \<open>src\<close> is never looked at. When that URL contains \<open>ver=\<close>
  followed by a version of two or three numerals, \<open>re.search\<close> returns a match, and the
  element adds exactly one finding, which spells out the URL and group 1 of that match,
  the version after \<open>ver=\<close>; otherwise the element adds none. So a document with a
  script whose \<open>src\<close> is \<open>/wp-includes/x.js?ver=5.8.1\<close> has the finding that names
  that URL and \<open>5.8.1\<close>.
\<close>

theorem resource_version_findings:
  "check_outdated_software soup =
     meta_findings soup []
     @ text_finding powered_by_pattern (get_text soup)
     @ text_finding version_pattern (get_text soup)
     @ text_finding apache_pattern (get_text soup)
     @ concat (map resource_finding (filter (is_tag [''script'', ''link'']) (descendants soup)))
   \<and> src_or_href link =
       (case tag_get link ''src'' of
          None \<Rightarrow> tag_get link ''href''
        | Some s \<Rightarrow> if s \<noteq> [] then Some s else tag_get link ''href'')
   \<and> (src_or_href link = None \<longrightarrow> resource_finding link = [])
   \<and> (src_or_href link = Some src \<and> \<not> occurs False ver_pattern src \<longrightarrow>
        re_search False ver_pattern src = None \<and> resource_finding link = [])
   \<and> (src_or_href link = Some src \<and> occurs False ver_pattern src \<longrightarrow>
        (\<exists>m v. re_search False ver_pattern src = Some m
           \<and> group0 m = ''ver='' @ v \<and> group m 1 = Some v \<and> v \<in> versions 2 3
           \<and> first_match False ver_pattern src (m_start m) (group0 m)
           \<and> (\<exists>rest ms. matches False ver_pattern (drop (m_start m) src) =
                 (group0 m, m_groups m, rest) # ms)
           \<and> resource_finding link =
               [''Potential version parameter in resource URL: '' @ src
                @ '' (version: '' @ v @ '')'']))
   \<and> (link \<in> set (descendants soup) \<and> is_tag [''script'', ''link''] link \<longrightarrow>
        set (resource_finding link) \<subseteq> set (check_outdated_software soup))
   \<and> (link \<in> set (descendants soup) \<and> is_tag [''script'', ''link''] link
        \<and> tag_get link ''src'' = Some ''/wp-includes/x.js?ver=5.8.1'' \<longrightarrow>
        ''Potential version parameter in resource URL: /wp-includes/x.js?ver=5.8.1 (version: 5.8.1)''
          \<in> set (check_outdated_software soup))"
proof -
  have a: "check_outdated_software soup =
     meta_findings soup []
     @ text_finding powered_by_pattern (get_text soup)
     @ text_finding version_pattern (get_text soup)
     @ text_finding apache_pattern (get_text soup)
     @ concat (map resource_finding (filter (is_tag [''script'', ''link'']) (descendants soup)))"
    using check_outdated_software_parts [of soup] by (simp only: find_all_def)
  have b: "src_or_href link =
       (case tag_get link ''src'' of
          None \<Rightarrow> tag_get link ''href''
        | Some s \<Rightarrow> if s \<noteq> [] then Some s else tag_get link ''href'')"
    by (fact src_or_href_def)
  have c: "src_or_href link = None \<longrightarrow> resource_finding link = []"
    by (simp add: resource_finding_cases)
  have d: "src_or_href link = Some src \<and> \<not> occurs False ver_pattern src \<longrightarrow>
        re_search False ver_pattern src = None \<and> resource_finding link = []"
  proof (intro impI, elim conjE)
    assume s: "src_or_href link = Some src" and n: "\<not> occurs False ver_pattern src"
    from resource_finding_match [OF s] n
    show "re_search False ver_pattern src = None \<and> resource_finding link = []"
      by (simp only: if_False)
  qed
  have e: "src_or_href link = Some src \<and> occurs False ver_pattern src \<longrightarrow>
        (\<exists>m v. re_search False ver_pattern src = Some m
           \<and> group0 m = ''ver='' @ v \<and> group m 1 = Some v \<and> v \<in> versions 2 3
           \<and> first_match False ver_pattern src (m_start m) (group0 m)
           \<and> (\<exists>rest ms. matches False ver_pattern (drop (m_start m) src) =
                 (group0 m, m_groups m, rest) # ms)
           \<and> resource_finding link =
               [''Potential version parameter in resource URL: '' @ src
                @ '' (version: '' @ v @ '')''])"
  proof (intro impI, elim conjE)
    assume s: "src_or_href link = Some src" and o: "occurs False ver_pattern src"
    from resource_finding_match [OF s] o
    show "\<exists>m v. re_search False ver_pattern src = Some m
           \<and> group0 m = ''ver='' @ v \<and> group m 1 = Some v \<and> v \<in> versions 2 3
           \<and> first_match False ver_pattern src (m_start m) (group0 m)
           \<and> (\<exists>rest ms. matches False ver_pattern (drop (m_start m) src) =
                 (group0 m, m_groups m, rest) # ms)
           \<and> resource_finding link =
               [''Potential version parameter in resource URL: '' @ src
                @ '' (version: '' @ v @ '')'']"
      by (simp only: if_True)
  qed
  have f: "link \<in> set (descendants soup) \<and> is_tag [''script'', ''link''] link \<longrightarrow>
        set (resource_finding link) \<subseteq> set (check_outdated_software soup)"
    using resource_finding_in_findings [of link soup] by blast
  have g: "link \<in> set (descendants soup) \<and> is_tag [''script'', ''link''] link
        \<and> tag_get link ''src'' = Some ''/wp-includes/x.js?ver=5.8.1'' \<longrightarrow>
        ''Potential version parameter in resource URL: /wp-includes/x.js?ver=5.8.1 (version: 5.8.1)''
          \<in> set (check_outdated_software soup)"
  proof (intro impI, elim conjE)
    assume a: "link \<in> set (descendants soup)" "is_tag [''script'', ''link''] link"
      and b: "tag_get link ''src'' = Some ''/wp-includes/x.js?ver=5.8.1''"
    from resource_finding_in_findings [OF a] x_js_finding [OF b]
    show "''Potential version parameter in resource URL: /wp-includes/x.js?ver=5.8.1 (version: 5.8.1)''
          \<in> set (check_outdated_software soup)"
      by simp
  qed
  show ?thesis
    by (intro conjI a b c d e f g)
qed

lemma script_soup_findings:
  "check_outdated_software script_soup =
     [''Potential version parameter in resource URL: /wp-includes/x.js?ver=5.8.1 (version: 5.8.1)'',
      ''Potential version parameter in resource URL: /theme.css?ver=2.0 (version: 2.0)'']"
  by code_simp

theorem resource_version_findings_witness:
  "Tag ''script'' [(''src'', ''/wp-includes/x.js?ver=5.8.1'')] [] \<in> set (descendants script_soup)
   \<and> is_tag [''script'', ''link''] (Tag ''script'' [(''src'', ''/wp-includes/x.js?ver=5.8.1'')] [])
   \<and> src_or_href (Tag ''script'' [(''src'', ''/wp-includes/x.js?ver=5.8.1'')] []) =
       Some ''/wp-includes/x.js?ver=5.8.1''
   \<and> occurs False ver_pattern ''/wp-includes/x.js?ver=5.8.1''
   \<and> re_search False ver_pattern ''/wp-includes/x.js?ver=5.8.1'' =
       Some \<lparr>m_start = 18, group0 = ''ver=5.8.1'', m_groups = [(2, ''.1''), (1, ''5.8.1'')]\<rparr>
   \<and> resource_finding (Tag ''script'' [(''src'', ''/wp-includes/x.js?ver=5.8.1'')] []) =
       [''Potential version parameter in resource URL: /wp-includes/x.js?ver=5.8.1 (version: 5.8.1)'']
   \<and> ''Potential version parameter in resource URL: /wp-includes/x.js?ver=5.8.1 (version: 5.8.1)''
         \<in> set (check_outdated_software script_soup)
   \<and> src_or_href (Tag ''link'' [(''rel'', ''stylesheet''), (''href'', ''/style.css'')] []) =
       Some ''/style.css''
   \<and> \<not> occurs False ver_pattern ''/style.css''
   \<and> resource_finding (Tag ''link'' [(''rel'', ''stylesheet''), (''href'', ''/style.css'')] []) = []
   \<and> check_outdated_software script_soup =
     [''Potential version parameter in resource URL: /wp-includes/x.js?ver=5.8.1 (version: 5.8.1)'',
      ''Potential version parameter in resource URL: /theme.css?ver=2.0 (version: 2.0)'']"
proof -
  let ?script = "Tag ''script'' [(''src'', ''/wp-includes/x.js?ver=5.8.1'')] []"
  let ?style = "Tag ''link'' [(''rel'', ''stylesheet''), (''href'', ''/style.css'')] []"
  have d: "?script \<in> set (descendants script_soup)"
    by (simp add: descendants_def script_soup_def)
  have t: "is_tag [''script'', ''link''] ?script"
    by simp
  have g: "tag_get ?script ''src'' = Some ''/wp-includes/x.js?ver=5.8.1''"
    by (simp add: tag_get_def)
  have u: "src_or_href ?script = Some ''/wp-includes/x.js?ver=5.8.1''"
    by (simp add: src_or_href_def tag_get_def)
  have o: "occurs False ver_pattern ''/wp-includes/x.js?ver=5.8.1''"
    using re_search_None_iff [of False ver_pattern "''/wp-includes/x.js?ver=5.8.1''"]
    by (simp add: x_js_search)
  have u': "src_or_href ?style = Some ''/style.css''"
    by (simp add: src_or_href_def tag_get_def)
  have "re_search False ver_pattern ''/style.css'' = None"
    by code_simp
  then have n: "\<not> occurs False ver_pattern ''/style.css''"
    by (simp add: re_search_None_iff)
  note a = resource_version_findings [of script_soup ?script "''/wp-includes/x.js?ver=5.8.1''"]
  note b = resource_version_findings [of script_soup ?style "''/style.css''"]
  from a u o obtain m v where m: "re_search False ver_pattern ''/wp-includes/x.js?ver=5.8.1'' = Some m"
    "group m 1 = Some v"
    "resource_finding ?script =
       [''Potential version parameter in resource URL: '' @ ''/wp-includes/x.js?ver=5.8.1''
        @ '' (version: '' @ v @ '')'']"
    by blast
  from m(1) have e: "m = \<lparr>m_start = 18, group0 = ''ver=5.8.1'', m_groups = [(2, ''.1''), (1, ''5.8.1'')]\<rparr>"
    by (simp add: x_js_search)
  from m(2) have "v = ''5.8.1''"
    unfolding e by (simp add: group_def)
  with m(3) have x: "resource_finding ?script =
       [''Potential version parameter in resource URL: /wp-includes/x.js?ver=5.8.1 (version: 5.8.1)'']"
    by simp
  from a d t g
  have y: "''Potential version parameter in resource URL: /wp-includes/x.js?ver=5.8.1 (version: 5.8.1)''
         \<in> set (check_outdated_software script_soup)"
    by blast
  from b u' n have z: "resource_finding ?style = []"
    by blast
  show ?thesis
    by (intro conjI d t u o x_js_search x y u' n z script_soup_findings)
qed

text \<open>
  The claim promises a finding for an element whose \<open>href\<close> has a version. When the
  element also has a non-empty \<open>src\<close>, only the \<open>src\<close> is looked at, and the version
  in the \<open>href\<close> gives no finding.
\<close>

theorem resource_version_findings_counterexample:
  "is_tag [''script'', ''link''] (Tag ''link'' [(''src'', ''/a.css''), (''href'', ''/b.css?ver=1.2'')] [])
   \<and> tag_get (Tag ''link'' [(''src'', ''/a.css''), (''href'', ''/b.css?ver=1.2'')] []) ''href'' =
       Some ''/b.css?ver=1.2''
   \<and> re_search False ver_pattern ''/b.css?ver=1.2'' =
       Some \<lparr>m_start = 7, group0 = ''ver=1.2'', m_groups = [(1, ''1.2'')]\<rparr>
   \<and> check_outdated_software
         [Tag ''link'' [(''src'', ''/a.css''), (''href'', ''/b.css?ver=1.2'')] []] = []"
proof -
  have "is_tag [''script'', ''link''] (Tag ''link'' [(''src'', ''/a.css''), (''href'', ''/b.css?ver=1.2'')] [])"
    by simp
  moreover have "tag_get (Tag ''link'' [(''src'', ''/a.css''), (''href'', ''/b.css?ver=1.2'')] []) ''href'' =
       Some ''/b.css?ver=1.2''"
    by (simp add: tag_get_def)
  moreover have "re_search False ver_pattern ''/b.css?ver=1.2'' =
       Some \<lparr>m_start = 7, group0 = ''ver=1.2'', m_groups = [(1, ''1.2'')]\<rparr>"
    by code_simp
  moreover have "check_outdated_software
         [Tag ''link'' [(''src'', ''/a.css''), (''href'', ''/b.css?ver=1.2'')] []] = []"
    by code_simp
  ultimately show ?thesis
    by (intro conjI)
qed

section \<open>The generator tag\<close>

lemma find_Some_first:
  "List.find P xs = Some t \<longleftrightarrow>
     (\<exists>pre post. xs = pre @ t # post \<and> P t \<and> (\<forall>x \<in> set pre. \<not> P x))"
proof (induction xs)
  case Nil
  show ?case by simp
next
  case (Cons a xs)
  show ?case
  proof (cases "P a")
    case True
    show ?thesis
    proof
      assume "List.find P (a # xs) = Some t"
      with True have "a = t" by simp
      with True have "a # xs = [] @ t # xs \<and> P t \<and> (\<forall>x \<in> set []. \<not> P x)"
        by simp
      then show "\<exists>pre post. a # xs = pre @ t # post \<and> P t \<and> (\<forall>x \<in> set pre. \<not> P x)"
        by blast
    next
      assume "\<exists>pre post. a # xs = pre @ t # post \<and> P t \<and> (\<forall>x \<in> set pre. \<not> P x)"
      then obtain pre post where e: "a # xs = pre @ t # post" and n: "\<forall>x \<in> set pre. \<not> P x"
        by blast
      from e n True have "pre = []"
        by (cases pre) auto
      with e True show "List.find P (a # xs) = Some t"
        by simp
    qed
  next
    case False
    show ?thesis
    proof
      assume "List.find P (a # xs) = Some t"
      with False have "List.find P xs = Some t" by simp
      with Cons.IH obtain pre post where "xs = pre @ t # post" "P t" "\<forall>x \<in> set pre. \<not> P x"
        by blast
      with False have "a # xs = (a # pre) @ t # post \<and> P t \<and> (\<forall>x \<in> set (a # pre). \<not> P x)"
        by simp
      then show "\<exists>pre post. a # xs = pre @ t # post \<and> P t \<and> (\<forall>x \<in> set pre. \<not> P x)"
        by blast
    next
      assume "\<exists>pre post. a # xs = pre @ t # post \<and> P t \<and> (\<forall>x \<in> set pre. \<not> P x)"
      then obtain pre post where e: "a # xs = pre @ t # post" and t: "P t"
        and n: "\<forall>x \<in> set pre. \<not> P x"
        by blast
      from e t False obtain pre' where "pre = a # pre'"
        by (cases pre) auto
      with e n have "xs = pre' @ t # post" "\<forall>x \<in> set pre'. \<not> P x"
        by simp_all
      with t Cons.IH have "List.find P xs = Some t"
        by blast
      with False show "List.find P (a # xs) = Some t"
        by simp
    qed
  qed
qed

lemma check_outdated_software_meta:
  "check_outdated_software soup =
     (case find_tag_attrs ''meta'' ''name'' ''generator'' soup of
        None \<Rightarrow> []
      | Some t \<Rightarrow>
          (case tag_get t ''content'' of
             None \<Rightarrow> []
           | Some c \<Rightarrow> [''Potential software identified via meta tag: '' @ c]))
     @ text_finding powered_by_pattern (get_text soup)
     @ text_finding version_pattern (get_text soup)
     @ text_finding apache_pattern (get_text soup)
     @ concat (map resource_finding (find_all [''script'', ''link''] soup))"
  unfolding check_outdated_software_parts
  by (simp add: meta_findings_def split: option.splits)

text \<open>
  C4, as the code has it. The detector looks at one tag only: the first \<open>meta\<close> element
  of the document, in document order, whose \<open>name\<close> is \<open>generator\<close>. When that tag has
  a \<open>content\<close> attribute, the findings start with the fixed prefix followed by the
  value of the attribute as it stands, and all findings of the text patterns and of the
  resources come after it. When that tag has no \<open>content\<close>, or there is no such tag, the
  findings are those of the text patterns and of the resources alone. So a document
  whose first generator tag has the content \<open>WordPress 5.8\<close> has a finding with that
  text, and it is the first one.
\<close>

theorem generator_meta_finding:
  "(find_tag_attrs ''meta'' ''name'' ''generator'' soup = Some t \<longleftrightarrow>
      (\<exists>pre post. descendants soup = pre @ t # post
         \<and> is_tag [''meta''] t \<and> tag_get t ''name'' = Some ''generator''
         \<and> (\<forall>x \<in> set pre. \<not> (is_tag [''meta''] x \<and> tag_get x ''name'' = Some ''generator''))))
   \<and> (find_tag_attrs ''meta'' ''name'' ''generator'' soup = Some t
        \<and> tag_get t ''content'' = Some c \<longrightarrow>
        check_outdated_software soup =
          (''Potential software identified via meta tag: '' @ c)
          # (text_finding powered_by_pattern (get_text soup)
             @ text_finding version_pattern (get_text soup)
             @ text_finding apache_pattern (get_text soup)
             @ concat (map resource_finding (find_all [''script'', ''link''] soup))))
   \<and> (find_tag_attrs ''meta'' ''name'' ''generator'' soup = None
        \<or> (find_tag_attrs ''meta'' ''name'' ''generator'' soup = Some t
            \<and> tag_get t ''content'' = None) \<longrightarrow>
        check_outdated_software soup =
          text_finding powered_by_pattern (get_text soup)
          @ text_finding version_pattern (get_text soup)
          @ text_finding apache_pattern (get_text soup)
          @ concat (map resource_finding (find_all [''script'', ''link''] soup)))
   \<and> (find_tag_attrs ''meta'' ''name'' ''generator'' soup = Some t
        \<and> tag_get t ''content'' = Some ''WordPress 5.8'' \<longrightarrow>
        (\<exists>later. check_outdated_software soup =
           ''Potential software identified via meta tag: WordPress 5.8'' # later)
        \<and> py_in ''WordPress 5.8'' ''Potential software identified via meta tag: WordPress 5.8'')"
proof -
  have "find_tag_attrs ''meta'' ''name'' ''generator'' soup = Some t \<longleftrightarrow>
      (\<exists>pre post. descendants soup = pre @ t # post
         \<and> is_tag [''meta''] t \<and> tag_get t ''name'' = Some ''generator''
         \<and> (\<forall>x \<in> set pre. \<not> (is_tag [''meta''] x \<and> tag_get x ''name'' = Some ''generator'')))"
    unfolding find_tag_attrs_def find_Some_first by blast
  moreover have "find_tag_attrs ''meta'' ''name'' ''generator'' soup = Some t
        \<and> tag_get t ''content'' = Some c \<longrightarrow>
        check_outdated_software soup =
          (''Potential software identified via meta tag: '' @ c)
          # (text_finding powered_by_pattern (get_text soup)
             @ text_finding version_pattern (get_text soup)
             @ text_finding apache_pattern (get_text soup)
             @ concat (map resource_finding (find_all [''script'', ''link''] soup)))"
    by (simp add: check_outdated_software_meta)
  moreover have "find_tag_attrs ''meta'' ''name'' ''generator'' soup = None
        \<or> (find_tag_attrs ''meta'' ''name'' ''generator'' soup = Some t
            \<and> tag_get t ''content'' = None) \<longrightarrow>
        check_outdated_software soup =
          text_finding powered_by_pattern (get_text soup)
          @ text_finding version_pattern (get_text soup)
          @ text_finding apache_pattern (get_text soup)
          @ concat (map resource_finding (find_all [''script'', ''link''] soup))"
    by (auto simp add: check_outdated_software_meta)
  moreover have "find_tag_attrs ''meta'' ''name'' ''generator'' soup = Some t
        \<and> tag_get t ''content'' = Some ''WordPress 5.8'' \<longrightarrow>
        (\<exists>later. check_outdated_software soup =
           ''Potential software identified via meta tag: WordPress 5.8'' # later)"
    by (simp add: check_outdated_software_meta)
  moreover have "py_in ''WordPress 5.8'' ''Potential software identified via meta tag: WordPress 5.8''"
    by code_simp
  ultimately show ?thesis
    by blast
qed

theorem generator_meta_finding_witness:
  "find_tag_attrs ''meta'' ''name'' ''generator'' wordpress_soup =
     Some (Tag ''meta'' [(''name'', ''generator''), (''content'', ''WordPress 5.8'')] [])
   \<and> tag_get (Tag ''meta'' [(''name'', ''generator''), (''content'', ''WordPress 5.8'')] []) ''content''
       = Some ''WordPress 5.8''
   \<and> check_outdated_software wordpress_soup =
       [''Potential software identified via meta tag: WordPress 5.8'',
        ''Potential software version found in text: Powered by WordPress 5.8'',
        ''Potential version parameter in resource URL: /wp-includes/x.js?ver=5.8.1 (version: 5.8.1)'']
   \<and> find_tag_attrs ''meta'' ''name'' ''generator'' script_soup = None
   \<and> check_outdated_software script_soup =
       concat (map resource_finding (find_all [''script'', ''link''] script_soup))"
proof -
  let ?t = "Tag ''meta'' [(''name'', ''generator''), (''content'', ''WordPress 5.8'')] []"
  have f: "find_tag_attrs ''meta'' ''name'' ''generator'' wordpress_soup = Some ?t"
    by (simp add: find_tag_attrs_def descendants_def wordpress_soup_def tag_get_def)
  have c: "tag_get ?t ''content'' = Some ''WordPress 5.8''"
    by (simp add: tag_get_def)
  have t: "text_finding powered_by_pattern (get_text wordpress_soup)
          @ text_finding version_pattern (get_text wordpress_soup)
          @ text_finding apache_pattern (get_text wordpress_soup)
          @ concat (map resource_finding (find_all [''script'', ''link''] wordpress_soup)) =
       [''Potential software version found in text: Powered by WordPress 5.8'',
        ''Potential version parameter in resource URL: /wp-includes/x.js?ver=5.8.1 (version: 5.8.1)'']"
    by code_simp
  have n: "find_tag_attrs ''meta'' ''name'' ''generator'' script_soup = None"
    by (simp add: find_tag_attrs_def descendants_def script_soup_def tag_get_def)
  have e: "text_finding powered_by_pattern (get_text script_soup) = []"
     "text_finding version_pattern (get_text script_soup) = []"
     "text_finding apache_pattern (get_text script_soup) = []"
    by code_simp+
  from generator_meta_finding [of wordpress_soup ?t "''WordPress 5.8''"] f c t
  have "check_outdated_software wordpress_soup =
       [''Potential software identified via meta tag: WordPress 5.8'',
        ''Potential software version found in text: Powered by WordPress 5.8'',
        ''Potential version parameter in resource URL: /wp-includes/x.js?ver=5.8.1 (version: 5.8.1)'']"
    by simp
  moreover from generator_meta_finding [of script_soup ?t "''WordPress 5.8''"] n e
  have "check_outdated_software script_soup =
       concat (map resource_finding (find_all [''script'', ''link''] script_soup))"
    by simp
  ultimately show ?thesis
    using f c n by simp
qed

text \<open>
  The claim promises a finding for a generator tag that exists. On a page where two
  programs name themselves only the first is reported, so the tag with the content
  \<open>WordPress 5.8\<close> is in the document and no finding has that text; and a generator
  tag with no content gives no finding at all.
\<close>

theorem generator_meta_finding_counterexample:
  "Tag ''meta'' [(''name'', ''generator''), (''content'', ''WordPress 5.8'')] []
     \<in> set (descendants generators_soup)
   \<and> check_outdated_software generators_soup =
       [''Potential software identified via meta tag: Elementor 3.1'']
   \<and> \<not> py_in ''WordPress 5.8'' ''Potential software identified via meta tag: Elementor 3.1''
   \<and> check_outdated_software [Tag ''meta'' [(''name'', ''generator'')] []] = []"
proof -
  have "Tag ''meta'' [(''name'', ''generator''), (''content'', ''WordPress 5.8'')] []
     \<in> set (descendants generators_soup)"
    by (simp add: descendants_def generators_soup_def)
  moreover have "check_outdated_software generators_soup =
       [''Potential software identified via meta tag: Elementor 3.1'']"
    by code_simp
  moreover have "\<not> py_in ''WordPress 5.8'' ''Potential software identified via meta tag: Elementor 3.1''"
    by code_simp
  moreover have "check_outdated_software [Tag ''meta'' [(''name'', ''generator'')] []] = []"
    by code_simp
  ultimately show ?thesis
    by simp
qed

section \<open>The directory-listing detector\<close>

lemma self_in_flatten: "x \<in> set (flatten x)"
  by (cases x) simp_all

lemma flatten_closed: "y \<in> set (flatten x) \<Longrightarrow> set (flatten y) \<subseteq> set (flatten x)"
proof (induction x)
  case (Tag name attrs contents)
  from Tag.prems consider "y = Tag name attrs contents"
    | c where "c \<in> set contents" "y \<in> set (flatten c)"
    by auto
  then show ?case
  proof cases
    case 1
    then show ?thesis by simp
  next
    case 2
    from Tag.IH [OF 2] 2(1) show ?thesis
      by auto
  qed
next
  case (NavigableString s)
  then show ?case by simp
next
  case (CData s)
  then show ?case by simp
next
  case (Comment s)
  then show ?case by simp
qed

lemma child_in_descendants:
  assumes "Tag name attrs contents \<in> set (descendants soup)" and "c \<in> set contents"
  shows "c \<in> set (descendants soup)"
proof -
  from assms(1) obtain x where x: "x \<in> set soup" "Tag name attrs contents \<in> set (flatten x)"
    by (auto simp add: descendants_def)
  from assms(2) self_in_flatten [of c] have "c \<in> set (flatten (Tag name attrs contents))"
    by auto
  with flatten_closed [OF x(2)] have "c \<in> set (flatten x)"
    by blast
  with x(1) show ?thesis
    by (auto simp add: descendants_def)
qed

lemma set_map_filter_conv:
  "set (List.map_filter f xs) = {y. \<exists>x \<in> set xs. f x = Some y}"
  by (induction xs) (auto simp add: List.map_filter_simps split: option.splits)

lemma find_string_None_iff:
  "find_string ic pattern soup = None \<longleftrightarrow>
     \<not> (\<exists>x \<in> set (descendants soup). \<exists>s. string_of x = Some s \<and> occurs ic pattern s)"
  unfolding find_string_def find_None_iff set_map_filter_conv re_search_None_iff
  by blast

lemma find_string_Some: "find_string ic pattern soup = Some s \<Longrightarrow> occurs ic pattern s"
  unfolding find_string_def find_Some_first re_search_None_iff
  by blast

lemma find_tag_string_None_iff:
  "find_tag_string name ic pattern soup = None \<longleftrightarrow>
     \<not> (\<exists>x \<in> set (descendants soup). is_tag [name] x
           \<and> (\<exists>s. dot_string x = Some s \<and> occurs ic pattern s))"
proof -
  have "(case dot_string x of None \<Rightarrow> False | Some s \<Rightarrow> re_search ic pattern s \<noteq> None)
      \<longleftrightarrow> (\<exists>s. dot_string x = Some s \<and> occurs ic pattern s)" for x
    by (simp add: re_search_None_iff split: option.splits)
  then show ?thesis
    unfolding find_tag_string_def find_None_iff by blast
qed

lemma occurs_lit_ignorecase:
  "occurs True (lit p) s \<longleftrightarrow> py_in (py_lower p) (py_lower s)"
proof
  assume "occurs True (lit p) s"
  then obtain pre w post where "s = pre @ w @ post" "py_lower w = py_lower p"
    by (auto simp add: occurs_iff lang_lit_ignorecase)
  then have "py_lower s = py_lower pre @ py_lower p @ py_lower post"
    by (simp add: py_lower_def)
  then show "py_in (py_lower p) (py_lower s)"
    by (auto simp add: py_in_def sublist_def)
next
  assume "py_in (py_lower p) (py_lower s)"
  then obtain ps ss where "map lower_char s = ps @ py_lower p @ ss"
    by (auto simp add: py_in_def sublist_def py_lower_def)
  then obtain pre rest where a: "s = pre @ rest" "py_lower p @ ss = map lower_char rest"
    unfolding map_eq_append_conv by blast
  then obtain w post where b: "rest = w @ post" "py_lower p = map lower_char w"
    unfolding append_eq_map_conv by blast
  from a b have "s = pre @ w @ post" "w \<in> lang True (lit p)"
    by (simp_all add: lang_lit_ignorecase py_lower_def)
  then show "occurs True (lit p) s"
    unfolding occurs_iff by blast
qed

lemma occurs_index_of:
  "occurs True index_of_pattern s \<longleftrightarrow> py_in ''index of /'' (py_lower s)"
  by (simp add: index_of_pattern_def occurs_lit_ignorecase py_lower_literals)

lemma index_of_not_in_empty: "occurs True index_of_pattern s \<Longrightarrow> s \<noteq> []"
  by (auto simp add: occurs_index_of py_in_def py_lower_def)

lemma in_lang_seqs_Cons:
  "v \<in> lang ic (seqs (r # r' # rs)) \<longleftrightarrow>
     (\<exists>a b. v = a @ b \<and> a \<in> lang ic r \<and> b \<in> lang ic (seqs (r' # rs)))"
  by (auto simp add: seqs_def)

lemma in_lang_seqs_single: "v \<in> lang ic (seqs [r]) \<longleftrightarrow> v \<in> lang ic r"
  by (simp add: seqs_def)

lemma in_lang_spaces: "w \<in> lang ic (Plus Whitespace) \<longleftrightarrow> is_space w"
  by (simp add: is_space_def)

lemma py_lower_titles:
  "py_lower ''Name'' = ''name''"
  "py_lower ''Last modified'' = ''last modified''"
  "py_lower ''Size'' = ''size''"
  "py_lower ''Description'' = ''description''"
  by code_simp+

lemma in_lang_listing_header:
  "w \<in> lang True listing_header_pattern \<longleftrightarrow>
     (\<exists>n s1 l s2 z s3 d. w = n @ s1 @ l @ s2 @ z @ s3 @ d
        \<and> py_lower n = ''name'' \<and> is_space s1 \<and> py_lower l = ''last modified'' \<and> is_space s2
        \<and> py_lower z = ''size'' \<and> is_space s3 \<and> py_lower d = ''description'')"
proof -
  have nested: "w \<in> lang True listing_header_pattern \<longleftrightarrow>
     (\<exists>n r1. w = n @ r1 \<and> py_lower n = ''name'' \<and>
       (\<exists>s1 r2. r1 = s1 @ r2 \<and> is_space s1 \<and>
         (\<exists>l r3. r2 = l @ r3 \<and> py_lower l = ''last modified'' \<and>
           (\<exists>s2 r4. r3 = s2 @ r4 \<and> is_space s2 \<and>
             (\<exists>z r5. r4 = z @ r5 \<and> py_lower z = ''size'' \<and>
               (\<exists>s3 d. r5 = s3 @ d \<and> is_space s3 \<and> py_lower d = ''description''))))))"
    unfolding listing_header_pattern_def
    by (simp only: in_lang_seqs_Cons in_lang_seqs_single in_lang_spaces lang_lit_ignorecase
          py_lower_titles mem_Collect_eq)
  show ?thesis
  proof
    assume "w \<in> lang True listing_header_pattern"
    with nested obtain n r1 s1 r2 l r3 s2 r4 z r5 s3 d
      where e: "w = n @ r1" "r1 = s1 @ r2" "r2 = l @ r3" "r3 = s2 @ r4" "r4 = z @ r5" "r5 = s3 @ d"
        and p: "py_lower n = ''name''" "is_space s1" "py_lower l = ''last modified''" "is_space s2"
          "py_lower z = ''size''" "is_space s3" "py_lower d = ''description''"
      by (elim iffD1 [elim_format] exE conjE)
    from e have "w = n @ s1 @ l @ s2 @ z @ s3 @ d"
      by simp
    with p have "w = n @ s1 @ l @ s2 @ z @ s3 @ d
        \<and> py_lower n = ''name'' \<and> is_space s1 \<and> py_lower l = ''last modified'' \<and> is_space s2
        \<and> py_lower z = ''size'' \<and> is_space s3 \<and> py_lower d = ''description''"
      by (intro conjI)
    then show "\<exists>n s1 l s2 z s3 d. w = n @ s1 @ l @ s2 @ z @ s3 @ d
        \<and> py_lower n = ''name'' \<and> is_space s1 \<and> py_lower l = ''last modified'' \<and> is_space s2
        \<and> py_lower z = ''size'' \<and> is_space s3 \<and> py_lower d = ''description''"
      by (intro exI)
  next
    assume "\<exists>n s1 l s2 z s3 d. w = n @ s1 @ l @ s2 @ z @ s3 @ d
        \<and> py_lower n = ''name'' \<and> is_space s1 \<and> py_lower l = ''last modified'' \<and> is_space s2
        \<and> py_lower z = ''size'' \<and> is_space s3 \<and> py_lower d = ''description''"
    then obtain n s1 l s2 z s3 d where w: "w = n @ s1 @ l @ s2 @ z @ s3 @ d"
        and p: "py_lower n = ''name''" "is_space s1" "py_lower l = ''last modified''" "is_space s2"
          "py_lower z = ''size''" "is_space s3" "py_lower d = ''description''"
      by (elim exE conjE)
    from w p have "\<exists>n r1. w = n @ r1 \<and> py_lower n = ''name'' \<and>
       (\<exists>s1 r2. r1 = s1 @ r2 \<and> is_space s1 \<and>
         (\<exists>l r3. r2 = l @ r3 \<and> py_lower l = ''last modified'' \<and>
           (\<exists>s2 r4. r3 = s2 @ r4 \<and> is_space s2 \<and>
             (\<exists>z r5. r4 = z @ r5 \<and> py_lower z = ''size'' \<and>
               (\<exists>s3 d. r5 = s3 @ d \<and> is_space s3 \<and> py_lower d = ''description'')))))"
      by - (intro exI conjI; (assumption | rule refl))
    then show "w \<in> lang True listing_header_pattern"
      by (simp only: nested)
  qed
qed

lemma check_open_directory_cases:
  assumes "\<not> raise_for_status r"
  shows "check_open_directory env (Some r) \<longleftrightarrow>
     (\<exists>t. soup_title (html_parser env (resp_text r)) = Some t
          \<and> py_in ''index of /'' (py_lower (get_text [t])))
     \<or> (\<exists>x \<in> set (descendants (html_parser env (resp_text r))).
           \<exists>s. string_of x = Some s \<and> py_in ''index of /'' (py_lower s))
     \<or> (\<exists>x \<in> set (descendants (html_parser env (resp_text r))). is_tag [''pre''] x
           \<and> (\<exists>s. dot_string x = Some s \<and> occurs True listing_header_pattern s))"
proof -
  let ?soup = "html_parser env (resp_text r)"
  have a: "(case soup_title ?soup of None \<Rightarrow> False
            | Some title \<Rightarrow> py_in ''index of /'' (py_lower (get_text [title])))
      \<longleftrightarrow> (\<exists>t. soup_title ?soup = Some t \<and> py_in ''index of /'' (py_lower (get_text [t])))"
    by (simp split: option.splits)
  have b: "(case find_string True index_of_pattern ?soup of None \<Rightarrow> False | Some s \<Rightarrow> s \<noteq> [])
      \<longleftrightarrow> (\<exists>x \<in> set (descendants ?soup). \<exists>s. string_of x = Some s \<and> py_in ''index of /'' (py_lower s))"
  proof (cases "find_string True index_of_pattern ?soup")
    case None
    then show ?thesis
      by (simp add: find_string_None_iff [THEN iffD1] occurs_index_of [symmetric])
  next
    case (Some s)
    from find_string_Some [OF Some] have "s \<noteq> []"
      by (rule index_of_not_in_empty)
    moreover from Some have "find_string True index_of_pattern ?soup \<noteq> None"
      by simp
    then have "\<exists>x \<in> set (descendants ?soup). \<exists>s. string_of x = Some s \<and> occurs True index_of_pattern s"
      by (simp only: find_string_None_iff not_not)
    ultimately show ?thesis
      using Some by (simp add: occurs_index_of)
  qed
  have c: "find_tag_string ''pre'' True listing_header_pattern ?soup \<noteq> None
      \<longleftrightarrow> (\<exists>x \<in> set (descendants ?soup). is_tag [''pre''] x
           \<and> (\<exists>s. dot_string x = Some s \<and> occurs True listing_header_pattern s))"
    by (simp only: find_tag_string_None_iff not_not)
  from assms have "check_open_directory env (Some r) \<longleftrightarrow>
      (case soup_title ?soup of None \<Rightarrow> False
            | Some title \<Rightarrow> py_in ''index of /'' (py_lower (get_text [title])))
      \<or> (case find_string True index_of_pattern ?soup of None \<Rightarrow> False | Some s \<Rightarrow> s \<noteq> [])
      \<or> find_tag_string ''pre'' True listing_header_pattern ?soup \<noteq> None"
    by (simp add: check_open_directory_def Let_def)
  then show ?thesis
    unfolding a b c .
qed

text \<open>
  C3, as the code has it. With no response, or a response that is not truthy, the
  detector returns false. Otherwise it returns true exactly when one of these holds for
  the parsed page: the text of the first \<open>title\<close> element, in lower case, contains
  \<open>index of /\<close>; some string of the page, of any class, contains \<open>index of /\<close> with
  letter case ignored; or the \<open>.string\<close> of some \<open>pre\<close> element, which exists only
  when the element has a single child down to one string, contains the four column
  titles of a listing, letter case ignored, with white space between them. A document
  that has a \<open>title\<close> element with the text \<open>Index of /test\<close> is found to be a
  listing.
\<close>

theorem open_directory_detection:
  "\<not> check_open_directory env None
   \<and> (raise_for_status r \<longrightarrow> \<not> check_open_directory env (Some r))
   \<and> (\<not> raise_for_status r \<longrightarrow>
        (check_open_directory env (Some r) \<longleftrightarrow>
           (\<exists>t. soup_title (html_parser env (resp_text r)) = Some t
                \<and> py_in ''index of /'' (py_lower (get_text [t])))
           \<or> (\<exists>x \<in> set (descendants (html_parser env (resp_text r))).
                 \<exists>s. string_of x = Some s \<and> py_in ''index of /'' (py_lower s))
           \<or> (\<exists>x \<in> set (descendants (html_parser env (resp_text r))). is_tag [''pre''] x
                 \<and> (\<exists>s. dot_string x = Some s \<and> occurs True listing_header_pattern s))))
   \<and> (soup_title soup = Some t \<longleftrightarrow>
        (\<exists>pre post. descendants soup = pre @ t # post \<and> is_tag [''title''] t
           \<and> (\<forall>x \<in> set pre. \<not> is_tag [''title''] x)))
   \<and> (occurs True listing_header_pattern s \<longleftrightarrow>
        (\<exists>pre w post. s = pre @ w @ post \<and> w \<in> lang True listing_header_pattern))
   \<and> (w \<in> lang True listing_header_pattern \<longleftrightarrow>
        (\<exists>n s1 l s2 z s3 d. w = n @ s1 @ l @ s2 @ z @ s3 @ d
           \<and> py_lower n = ''name'' \<and> is_space s1 \<and> py_lower l = ''last modified''
           \<and> is_space s2 \<and> py_lower z = ''size'' \<and> is_space s3
           \<and> py_lower d = ''description''))
   \<and> (\<not> raise_for_status r
        \<and> Tag ''title'' attrs [NavigableString ''Index of /test'']
             \<in> set (descendants (html_parser env (resp_text r))) \<longrightarrow>
        check_open_directory env (Some r))"
proof -
  have "\<not> check_open_directory env None"
    by (simp add: check_open_directory_def)
  moreover have "raise_for_status r \<longrightarrow> \<not> check_open_directory env (Some r)"
    by (simp add: check_open_directory_def)
  moreover note check_open_directory_cases [of r env]
  moreover have "soup_title soup = Some t \<longleftrightarrow>
        (\<exists>pre post. descendants soup = pre @ t # post \<and> is_tag [''title''] t
           \<and> (\<forall>x \<in> set pre. \<not> is_tag [''title''] x))"
    unfolding soup_title_def find_tag_def by (rule find_Some_first)
  moreover note occurs_iff [of True listing_header_pattern s]
  moreover note in_lang_listing_header [of w]
  moreover have "check_open_directory env (Some r)"
    if a: "\<not> raise_for_status r"
      and b: "Tag ''title'' attrs [NavigableString ''Index of /test'']
             \<in> set (descendants (html_parser env (resp_text r)))"
  proof -
    from b have "NavigableString ''Index of /test'' \<in> set (descendants (html_parser env (resp_text r)))"
      by (rule child_in_descendants) simp
    moreover have "string_of (NavigableString ''Index of /test'') = Some ''Index of /test''"
      by simp
    moreover have "py_in ''index of /'' (py_lower ''Index of /test'')"
      by code_simp
    ultimately have "\<exists>x \<in> set (descendants (html_parser env (resp_text r))).
                 \<exists>s. string_of x = Some s \<and> py_in ''index of /'' (py_lower s)"
      by blast
    with check_open_directory_cases [OF a, of env] show ?thesis
      by blast
  qed
  ultimately show ?thesis
    by blast
qed

theorem open_directory_detection_witness:
  "\<not> raise_for_status \<lparr>status_code = 200, resp_text = stub_page\<rparr>
   \<and> Tag ''title'' [] [NavigableString ''Index of /test'']
        \<in> set (descendants (html_parser stub_env (resp_text \<lparr>status_code = 200, resp_text = stub_page\<rparr>)))
   \<and> check_open_directory stub_env (Some \<lparr>status_code = 200, resp_text = stub_page\<rparr>)
   \<and> raise_for_status \<lparr>status_code = 404, resp_text = stub_page\<rparr>
   \<and> \<not> check_open_directory stub_env (Some \<lparr>status_code = 404, resp_text = stub_page\<rparr>)
   \<and> \<not> check_open_directory stub_env (Some \<lparr>status_code = 200, resp_text = ''Sign in''\<rparr>)"
proof -
  let ?r = "\<lparr>status_code = 200, resp_text = stub_page\<rparr>"
  let ?e = "\<lparr>status_code = 404, resp_text = stub_page\<rparr>"
  have a: "\<not> raise_for_status ?r"
    by (simp add: raise_for_status_def)
  have b: "Tag ''title'' [] [NavigableString ''Index of /test'']
        \<in> set (descendants (html_parser stub_env (resp_text ?r)))"
    by (simp add: stub_env_def stub_parser_def descendants_def)
  have c: "raise_for_status ?e"
    by (simp add: raise_for_status_def)
  have d: "\<not> check_open_directory stub_env (Some \<lparr>status_code = 200, resp_text = ''Sign in''\<rparr>)"
    by (simp add: check_open_directory_def raise_for_status_def stub_env_def stub_parser_def
          stub_page_def soup_title_def find_tag_def find_string_def find_tag_string_def
          descendants_def List.map_filter_simps)
  from open_directory_detection [of stub_env ?r "[]" "Tag ''title'' [] []" "[]" "[]" "[]"] a b
  have "check_open_directory stub_env (Some ?r)"
    by blast
  moreover from open_directory_detection [of stub_env ?e "[]" "Tag ''title'' [] []" "[]" "[]" "[]"] c
  have "\<not> check_open_directory stub_env (Some ?e)"
    by blast
  ultimately show ?thesis
    using a b c d by simp
qed

text \<open>
  The claim speaks of the text of a \<open>pre\<close> element. In the head of a listing as a
  server writes it the first column title is a link, so the element has two children
  and no \<open>.string\<close>: its text has the four titles, and the detector returns false.
\<close>

theorem open_directory_detection_counterexample:
  "is_tag [''pre''] listing_pre
   \<and> html_parser listing_env ''page'' = [listing_pre]
   \<and> get_text [listing_pre] = ''Name   Last modified    Size  Description''
   \<and> re_search True listing_header_pattern (get_text [listing_pre]) =
       Some \<lparr>m_start = 0, group0 = ''Name   Last modified    Size  Description'', m_groups = []\<rparr>
   \<and> \<not> raise_for_status \<lparr>status_code = 200, resp_text = ''page''\<rparr>
   \<and> \<not> check_open_directory listing_env (Some \<lparr>status_code = 200, resp_text = ''page''\<rparr>)"
proof -
  have "is_tag [''pre''] listing_pre"
    by (simp add: listing_pre_def)
  moreover have "html_parser listing_env ''page'' = [listing_pre]"
    by (simp add: listing_env_def)
  moreover have t: "get_text [listing_pre] = ''Name   Last modified    Size  Description''"
    by (simp add: get_text_def descendants_def listing_pre_def)
  moreover have "re_search True listing_header_pattern ''Name   Last modified    Size  Description'' =
       Some \<lparr>m_start = 0, group0 = ''Name   Last modified    Size  Description'', m_groups = []\<rparr>"
    by code_simp
  moreover have "\<not> raise_for_status \<lparr>status_code = 200, resp_text = ''page''\<rparr>"
    by (simp add: raise_for_status_def)
  moreover have "\<not> check_open_directory listing_env (Some \<lparr>status_code = 200, resp_text = ''page''\<rparr>)"
    by code_simp
  ultimately show ?thesis
    by simp
qed

end
